theory Spec2Isabelle
  imports Main "HOL-Library.Sublist"
begin

section \<open>The file logger of ingest-music (src/utils/logger.ts)\<close>

text \<open>
  The module is one class, \<^verbatim>\<open>Logger\<close>, with two private fields (\<^verbatim>\<open>config\<close> and
  \<^verbatim>\<open>fileStream\<close>) and a process-wide instance. Its methods act on the file system, on
  the console and on the clock, so the embedding passes an explicit state: the two fields
  of the instance together with the part of the environment the methods touch. A method
  that can throw returns a sum, \<open>Inl\<close> carrying the exception. Every throw point of an
  emitting method (a call of \<^verbatim>\<open>JSON.stringify\<close>) comes before the first effect of the
  method, so \<open>Inl e\<close> always means: thrown with the state as it was.
\<close>

subsection \<open>Characters that a string literal cannot hold\<close>

abbreviation nl :: string where "nl \<equiv> [CHR 0x0A]"
abbreviation sq :: string where "sq \<equiv> [CHR 0x27]"
abbreviation dq :: string where "dq \<equiv> [CHR 0x22]"
abbreviation bsl :: string where "bsl \<equiv> [CHR 0x5C]"

subsection \<open>Levels and configuration\<close>

datatype LogLevel = Debug | Info | Warn | Error

text \<open>The string value of a level, as the TypeScript union type spells it.\<close>

fun level_name :: "LogLevel \<Rightarrow> string" where
  "level_name Debug = ''debug''"
| "level_name Info = ''info''"
| "level_name Warn = ''warn''"
| "level_name Error = ''error''"

fun LOG_LEVEL_PRIORITY :: "LogLevel \<Rightarrow> nat" where
  "LOG_LEVEL_PRIORITY Debug = 0"
| "LOG_LEVEL_PRIORITY Info = 1"
| "LOG_LEVEL_PRIORITY Warn = 2"
| "LOG_LEVEL_PRIORITY Error = 3"

record LoggerConfig =
  level :: LogLevel
  file' :: "string option"

subsection \<open>Values of type unknown, and JSON.stringify\<close>

text \<open>
  The payloads of \<^verbatim>\<open>debug\<close>, \<^verbatim>\<open>error\<close>, \<^verbatim>\<open>logCurl\<close> and \<^verbatim>\<open>logApiResponse\<close> have type
  \<^verbatim>\<open>unknown\<close>. The fragment of JavaScript values modelled here: \<^verbatim>\<open>undefined\<close>,
  \<^verbatim>\<open>null\<close>, booleans, integral numbers (whose decimal form is what \<^verbatim>\<open>Number::toString\<close>
  prints), strings, BigInts, arrays, plain objects (as the list of their own enumerable
  entries, in the order \<^verbatim>\<open>Object.keys\<close> gives) and \<^verbatim>\<open>Error\<close> instances (a message
  and an optional stack). Functions, symbols, fractional numbers, objects with a
  \<^verbatim>\<open>toJSON\<close> method and cyclic structures are outside the fragment; a BigInt stands for
  the values that \<^verbatim>\<open>JSON.stringify\<close> refuses.
\<close>

datatype jsvalue =
    Undefined
  | Null
  | Bool bool
  | Num int
  | Str string
  | BigInt int
  | Arr "jsvalue list"
  | Obj "(string \<times> jsvalue) list"
  | ErrorObj string "string option"

datatype exn = TypeError string | FsError string

text \<open>Truthiness, as \<^verbatim>\<open>if (body)\<close> tests it.\<close>

fun truthy :: "jsvalue \<Rightarrow> bool" where
  "truthy Undefined = False"
| "truthy Null = False"
| "truthy (Bool b) = b"
| "truthy (Num n) = (n \<noteq> 0)"
| "truthy (Str s) = (s \<noteq> [])"
| "truthy (BigInt n) = (n \<noteq> 0)"
| "truthy (Arr vs) = True"
| "truthy (Obj ps) = True"
| "truthy (ErrorObj m st) = True"

fun digit_char :: "nat \<Rightarrow> char" where
  "digit_char n = char_of (48 + n)"

fun dec_nat :: "nat \<Rightarrow> string" where
  "dec_nat n = (if n < 10 then [digit_char n] else dec_nat (n div 10) @ [digit_char (n mod 10)])"

declare dec_nat.simps [simp del]

definition dec_int :: "int \<Rightarrow> string" where
  "dec_int i = (if i < 0 then ''-'' @ dec_nat (nat (- i)) else dec_nat (nat i))"

fun hex_char :: "nat \<Rightarrow> char" where
  "hex_char n = (if n < 10 then char_of (48 + n) else char_of (87 + n))"

text \<open>
  \<^verbatim>\<open>QuoteJSONString\<close>: the double quote and the backslash are escaped, the control
  characters below 0x20 have their short or \<^verbatim>\<open>\u00XX\<close> form. A \<open>string\<close> here is a
  list of bytes, so the code points above 0x7F pass through as they are.
\<close>

fun quote_char :: "char \<Rightarrow> string" where
  "quote_char c =
     (let n = (of_char c :: nat) in
      if n = 0x22 then bsl @ dq
      else if n = 0x5C then bsl @ bsl
      else if n = 0x08 then bsl @ ''b''
      else if n = 0x0C then bsl @ ''f''
      else if n = 0x0A then bsl @ ''n''
      else if n = 0x0D then bsl @ ''r''
      else if n = 0x09 then bsl @ ''t''
      else if n < 0x20 then bsl @ ''u00'' @ [hex_char (n div 16), hex_char (n mod 16)]
      else [c])"

definition quote_json :: "string \<Rightarrow> string" where
  "quote_json s = dq @ concat (map quote_char s) @ dq"

text \<open>Joining the serialized parts with a separator.\<close>

fun join_with :: "string \<Rightarrow> string list \<Rightarrow> string" where
  "join_with sep [] = []"
| "join_with sep [x] = x"
| "join_with sep (x # y # ys) = x @ sep @ join_with sep (y # ys)"

text \<open>
  \<^verbatim>\<open>JSON.stringify(value, null, gap)\<close> with \<open>gap\<close> spaces of indentation (0 for the
  one-argument call). \<open>ser gap ind v\<close> is \<^verbatim>\<open>SerializeJSONProperty\<close> at the current
  indentation \<open>ind\<close>: \<open>Inr None\<close> is the result \<^verbatim>\<open>undefined\<close>, \<open>Inl\<close> the TypeError.
  In an array \<^verbatim>\<open>undefined\<close> is written \<^verbatim>\<open>null\<close>; in an object the property is
  left out. An \<^verbatim>\<open>Error\<close> instance has no enumerable property of its own.
\<close>

fun wrap_json :: "nat \<Rightarrow> nat \<Rightarrow> string \<Rightarrow> string \<Rightarrow> string list \<Rightarrow> string" where
  "wrap_json gap ind l r parts =
     (if parts = [] then l @ r
      else if gap = 0 then l @ join_with '','' parts @ r
      else l @ nl @ replicate (ind + gap) CHR '' ''
             @ join_with ('','' @ nl @ replicate (ind + gap) CHR '' '') parts
             @ nl @ replicate ind CHR '' '' @ r)"

fun ser :: "nat \<Rightarrow> nat \<Rightarrow> jsvalue \<Rightarrow> exn + string option"
  and ser_elems :: "nat \<Rightarrow> nat \<Rightarrow> jsvalue list \<Rightarrow> exn + string list"
  and ser_props :: "nat \<Rightarrow> nat \<Rightarrow> (string \<times> jsvalue) list \<Rightarrow> exn + string list" where
  "ser gap ind Undefined = Inr None"
| "ser gap ind Null = Inr (Some ''null'')"
| "ser gap ind (Bool b) = Inr (Some (if b then ''true'' else ''false''))"
| "ser gap ind (Num n) = Inr (Some (dec_int n))"
| "ser gap ind (Str s) = Inr (Some (quote_json s))"
| "ser gap ind (BigInt n) = Inl (TypeError ''Do not know how to serialize a BigInt'')"
| "ser gap ind (Arr vs) =
     (case ser_elems gap (ind + gap) vs of
        Inl e \<Rightarrow> Inl e
      | Inr parts \<Rightarrow> Inr (Some (wrap_json gap ind ''['' '']'' parts)))"
| "ser gap ind (Obj ps) =
     (case ser_props gap (ind + gap) ps of
        Inl e \<Rightarrow> Inl e
      | Inr parts \<Rightarrow> Inr (Some (wrap_json gap ind ''{'' ''}'' parts)))"
| "ser gap ind (ErrorObj m st) = Inr (Some ''{}'')"
| "ser_elems gap ind [] = Inr []"
| "ser_elems gap ind (v # vs) =
     (case ser gap ind v of
        Inl e \<Rightarrow> Inl e
      | Inr r \<Rightarrow>
          (case ser_elems gap ind vs of
             Inl e \<Rightarrow> Inl e
           | Inr rs \<Rightarrow> Inr ((case r of None \<Rightarrow> ''null'' | Some t \<Rightarrow> t) # rs)))"
| "ser_props gap ind [] = Inr []"
| "ser_props gap ind ((k, v) # ps) =
     (case ser gap ind v of
        Inl e \<Rightarrow> Inl e
      | Inr r \<Rightarrow>
          (case ser_props gap ind ps of
             Inl e \<Rightarrow> Inl e
           | Inr rs \<Rightarrow>
               Inr ((case r of
                       None \<Rightarrow> []
                     | Some t \<Rightarrow> [quote_json k @ '':'' @ (if gap = 0 then [] else '' '') @ t]) @ rs)))"

definition JSON_stringify :: "nat \<Rightarrow> jsvalue \<Rightarrow> exn + string option" where
  "JSON_stringify gap v = ser gap 0 v"

text \<open>A template literal prints the result \<^verbatim>\<open>undefined\<close> as the word.\<close>

fun template :: "string option \<Rightarrow> string" where
  "template None = ''undefined''"
| "template (Some t) = t"

subsection \<open>The state: the instance and its environment\<close>

text \<open>
  \<open>config\<close> and \<open>fileStream\<close> are the private fields of the instance. The rest is the
  environment: the content of the files, the paths that exist as directories, the write
  streams created so far (a \<^verbatim>\<open>fs.WriteStream\<close> is its index in \<open>streams\<close>, with the
  path it appends to and whether it is closed: \<^verbatim>\<open>end()\<close> was called, or the file could
  not be opened and the stream was destroyed), what \<^verbatim>\<open>console.error\<close> printed,
  \<open>uncaught\<close>, the errors a stream emitted as an \<^verbatim>\<open>'error'\<close> event that nothing listens
  to (the class registers no listener, and Node makes such an event an uncaught exception
  of the process), and \<open>now\<close>, the string \<^verbatim>\<open>new Date().toISOString()\<close> returns. Every
  method reads the clock at most once, so one value per call is enough; the clock moves
  between calls. The turn of the event loop in which a stream opens its file and flushes
  its buffer is not modelled: a write reaches the file at once, and the failure to open
  is known at once, but it arrives as the event it is, not as an exception.
\<close>

type_synonym path = string

record state =
  config :: LoggerConfig
  fileStream :: "nat option"
  files :: "path \<rightharpoonup> string"
  dirs :: "path set"
  streams :: "(path \<times> bool) list"
  console :: "(string \<times> exn) list"
  uncaught :: "exn list"
  now :: string

text \<open>
  What the instance takes from the platform and cannot be read off the source:
  \<^verbatim>\<open>os.tmpdir()\<close>, \<^verbatim>\<open>path.dirname\<close>, \<^verbatim>\<open>path.join\<close>, and whether
  \<^verbatim>\<open>fs.mkdirSync\<close> fails on a path and whether the file at a path fails to open for
  appending (\<open>None\<close>: they succeed).
\<close>

record platform =
  tmpdir :: path
  dirname :: "path \<Rightarrow> path"
  join :: "path \<Rightarrow> path \<Rightarrow> path"
  mkdir_error :: "path \<Rightarrow> exn option"
  open_error :: "path \<Rightarrow> exn option"

text \<open>The instance as the class initialiser leaves it, in an environment.\<close>

definition new_Logger :: "state \<Rightarrow> state" where
  "new_Logger s = s\<lparr>config := \<lparr>level = Info, file' = None\<rparr>, fileStream := None\<rparr>"

subsection \<open>Streams and the file system\<close>

definition existsSync :: "path \<Rightarrow> state \<Rightarrow> bool" where
  "existsSync p s = (p \<in> dirs s \<or> files s p \<noteq> None)"

text \<open>
  \<^verbatim>\<open>fs.mkdirSync(dir, { recursive: true })\<close>. Only the directory itself is recorded:
  the ancestors the flag creates are never asked about.
\<close>

definition mkdirSync :: "platform \<Rightarrow> path \<Rightarrow> state \<Rightarrow> exn + state" where
  "mkdirSync P p s =
     (case mkdir_error P p of
        Some e \<Rightarrow> Inl e
      | None \<Rightarrow> Inr (s\<lparr>dirs := insert p (dirs s)\<rparr>))"

text \<open>
  \<^verbatim>\<open>fs.createWriteStream(p, { flags: "a" })\<close> returns a stream in every case; it does
  not throw when the file cannot be opened. When the file opens, it is created empty if
  it does not exist and its content is kept if it does. When it does not open
  (\<^verbatim>\<open>EACCES\<close>, \<^verbatim>\<open>EISDIR\<close>, \<^verbatim>\<open>ENOENT\<close>), the stream is destroyed and the error is
  emitted on it as an \<^verbatim>\<open>'error'\<close> event. The new stream is the next index.
\<close>

definition createWriteStream :: "platform \<Rightarrow> path \<Rightarrow> state \<Rightarrow> nat \<times> state" where
  "createWriteStream P p s =
     (length (streams s),
      case open_error P p of
        None \<Rightarrow>
          s\<lparr>files := (files s)(p \<mapsto> (case files s p of None \<Rightarrow> [] | Some c \<Rightarrow> c)),
            streams := streams s @ [(p, False)]\<rparr>
      | Some e \<Rightarrow>
          s\<lparr>streams := streams s @ [(p, True)], uncaught := uncaught s @ [e]\<rparr>)"

text \<open>
  \<^verbatim>\<open>stream.write(data)\<close> appends to the file of the stream. On a closed stream
  nothing is written.
\<close>

definition stream_write :: "nat \<Rightarrow> string \<Rightarrow> state \<Rightarrow> state" where
  "stream_write h data s =
     (if h < length (streams s) \<and> \<not> snd (streams s ! h)
      then s\<lparr>files := (files s)(fst (streams s ! h) \<mapsto>
                  (case files s (fst (streams s ! h)) of None \<Rightarrow> data | Some c \<Rightarrow> c @ data))\<rparr>
      else s)"

definition stream_end :: "nat \<Rightarrow> state \<Rightarrow> state" where
  "stream_end h s =
     (if h < length (streams s)
      then s\<lparr>streams := (streams s)[h := (fst (streams s ! h), True)]\<rparr>
      else s)"

definition console_error :: "string \<Rightarrow> exn \<Rightarrow> state \<Rightarrow> state" where
  "console_error msg e s = s\<lparr>console := console s @ [(msg, e)]\<rparr>"

subsection \<open>The methods of Logger\<close>

text \<open>\<^verbatim>\<open>config.file || path.join(os.tmpdir(), "ingest-music.log")\<close>\<close>

definition logFilePath :: "platform \<Rightarrow> LoggerConfig \<Rightarrow> path" where
  "logFilePath P cfg =
     (case file' cfg of
        Some f \<Rightarrow> if f \<noteq> [] then f else join P (tmpdir P) ''ingest-music.log''
      | None \<Rightarrow> join P (tmpdir P) ''ingest-music.log'')"

text \<open>
  The body of the \<^verbatim>\<open>try\<close> block of \<^verbatim>\<open>init\<close>: \<open>Inl (e, s')\<close> is the exception \<open>e\<close>
  thrown in the state \<open>s'\<close> reached so far. Only \<^verbatim>\<open>fs.mkdirSync\<close> can throw in it.
\<close>

definition init_try :: "platform \<Rightarrow> path \<Rightarrow> state \<Rightarrow> exn \<times> state + state" where
  "init_try P p s =
     (let dir = dirname P p in
      case (if \<not> existsSync dir s then mkdirSync P dir s else Inr s) of
        Inl e \<Rightarrow> Inl (e, s)
      | Inr s1 \<Rightarrow>
          (case createWriteStream P p s1 of
             (h, s2) \<Rightarrow>
               Inr (stream_write h (nl @ ''['' @ now s2 @ ''] New session started'' @ nl)
                      (s2\<lparr>fileStream := Some h\<rparr>))))"

text \<open>The first statement of \<^verbatim>\<open>init\<close>: an existing stream is ended and forgotten.\<close>

definition close_existing :: "state \<Rightarrow> state" where
  "close_existing s =
     (case fileStream s of
        Some h \<Rightarrow> (stream_end h s)\<lparr>fileStream := None\<rparr>
      | None \<Rightarrow> s)"

definition init :: "platform \<Rightarrow> LoggerConfig \<Rightarrow> state \<Rightarrow> exn + state" where
  "init P cfg s =
     (let s1 = close_existing s;
          s2 = s1\<lparr>config := cfg\<rparr>;
          p = logFilePath P cfg
      in case init_try P p s2 of
           Inr s3 \<Rightarrow> Inr s3
         | Inl (e, s3) \<Rightarrow> Inr (console_error (''Failed to open log file '' @ p @ '':'') e s3))"

definition shouldLog :: "LogLevel \<Rightarrow> state \<Rightarrow> bool" where
  "shouldLog lvl s = (LOG_LEVEL_PRIORITY lvl \<ge> LOG_LEVEL_PRIORITY (level (config s)))"

text \<open>\<^verbatim>\<open>String.prototype.toUpperCase\<close> on the ASCII letters.\<close>

definition upper_char :: "char \<Rightarrow> char" where
  "upper_char c =
     (let n = (of_char c :: nat) in if 97 \<le> n \<and> n \<le> 122 then char_of (n - 32) else c)"

definition toUpperCase :: "string \<Rightarrow> string" where
  "toUpperCase s = map upper_char s"

definition formatMessage :: "LogLevel \<Rightarrow> string \<Rightarrow> state \<Rightarrow> string" where
  "formatMessage lvl message s =
     ''['' @ now s @ ''] ['' @ toUpperCase (level_name lvl) @ ''] '' @ message"

definition write' :: "LogLevel \<Rightarrow> string \<Rightarrow> state \<Rightarrow> state" where
  "write' lvl message s =
     (if \<not> shouldLog lvl s then s
      else
        (let formatted = formatMessage lvl message s in
         case fileStream s of
           Some h \<Rightarrow> stream_write h (formatted @ nl) s
         | None \<Rightarrow> s))"

definition setDebug :: "bool \<Rightarrow> state \<Rightarrow> state" where
  "setDebug enabled s = s\<lparr>config := (config s)\<lparr>level := (if enabled then Debug else Info)\<rparr>\<rparr>"

definition isDebugEnabled :: "state \<Rightarrow> bool" where
  "isDebugEnabled s = (level (config s) = Debug)"

definition debug :: "string \<Rightarrow> jsvalue \<Rightarrow> state \<Rightarrow> exn + state" where
  "debug message data s =
     (case (if data \<noteq> Undefined
            then (case JSON_stringify 2 data of
                    Inl e \<Rightarrow> Inl e
                  | Inr j \<Rightarrow> Inr (message @ nl @ template j))
            else Inr message) of
        Inl e \<Rightarrow> Inl e
      | Inr fullMessage \<Rightarrow> Inr (write' Debug fullMessage s))"

definition info :: "string \<Rightarrow> state \<Rightarrow> exn + state" where
  "info message s = Inr (write' Info message s)"

definition warn :: "string \<Rightarrow> state \<Rightarrow> exn + state" where
  "warn message s = Inr (write' Warn message s)"

text \<open>\<^verbatim>\<open>error.stack || ""\<close>: a missing and an empty stack both give the empty string.\<close>

definition error :: "string \<Rightarrow> jsvalue \<Rightarrow> state \<Rightarrow> exn + state" where
  "error message err s =
     (case (if err \<noteq> Undefined
            then (case err of
                    ErrorObj m st \<Rightarrow>
                      Inr (message @ nl @ m @ nl @ (case st of None \<Rightarrow> [] | Some t \<Rightarrow> t))
                  | _ \<Rightarrow>
                      (case JSON_stringify 2 err of
                         Inl e \<Rightarrow> Inl e
                       | Inr j \<Rightarrow> Inr (message @ nl @ template j)))
            else Inr message) of
        Inl e \<Rightarrow> Inl e
      | Inr fullMessage \<Rightarrow> Inr (write' Error fullMessage s))"

text \<open>
  The loop of \<^verbatim>\<open>logCurl\<close> over \<^verbatim>\<open>Object.entries(headers)\<close>, appending to the
  accumulator \<^verbatim>\<open>curl\<close>.
\<close>

fun curl_headers :: "(string \<times> string) list \<Rightarrow> string \<Rightarrow> string" where
  "curl_headers [] curl = curl"
| "curl_headers ((key, val) # hs) curl =
     curl_headers hs (curl @ '' '' @ bsl @ nl @ ''  -H '' @ sq @ key @ '': '' @ val @ sq)"

text \<open>
  \<open>headers\<close> is \<open>None\<close> for a missing argument, else the entries of the object. The
  first line returns before any string is built when debug is filtered out.
\<close>

definition logCurl ::
  "string \<Rightarrow> string \<Rightarrow> (string \<times> string) list option \<Rightarrow> jsvalue \<Rightarrow> state \<Rightarrow> exn + state" where
  "logCurl method url headers body s =
     (if \<not> shouldLog Debug s then Inr s
      else
        (let curl = ''curl -X '' @ method @ '' '' @ sq @ url @ sq;
             curl1 = (case headers of Some hs \<Rightarrow> curl_headers hs curl | None \<Rightarrow> curl)
         in case (if truthy body
                  then (case (case body of
                                Str b \<Rightarrow> Inr b
                              | _ \<Rightarrow> (case JSON_stringify 0 body of
                                        Inl e \<Rightarrow> Inl e
                                      | Inr j \<Rightarrow> Inr (template j))) of
                          Inl e \<Rightarrow> Inl e
                        | Inr bodyStr \<Rightarrow>
                            Inr (curl1 @ '' '' @ bsl @ nl @ ''  -d '' @ sq @ bodyStr @ sq))
                  else Inr curl1) of
              Inl e \<Rightarrow> Inl e
            | Inr curl2 \<Rightarrow> debug (''API Call:'' @ nl @ curl2) Undefined s))"

definition logApiResponse :: "string \<Rightarrow> jsvalue \<Rightarrow> state \<Rightarrow> exn + state" where
  "logApiResponse apiName response s =
     (if \<not> shouldLog Debug s then Inr s
      else
        (case JSON_stringify 2 response of
           Inl e \<Rightarrow> Inl e
         | Inr j \<Rightarrow> debug (apiName @ '' Response:'' @ nl @ template j) Undefined s))"

definition close :: "state \<Rightarrow> exn + state" where
  "close s =
     (case fileStream s of
        Some h \<Rightarrow>
          Inr ((stream_end h (stream_write h (''['' @ now s @ ''] Session ended'' @ nl) s))
                 \<lparr>fileStream := None\<rparr>)
      | None \<Rightarrow> Inr s)"

subsection \<open>Sequences of calls\<close>

text \<open>
  The calls a host program makes on the instance, and \<open>Tick\<close>, the clock moving to a new
  reading between two calls. A caller that catches an exception goes on with the state
  the call started in.
\<close>

datatype call =
    CInit LoggerConfig
  | CDebug string jsvalue
  | CInfo string
  | CWarn string
  | CError string jsvalue
  | CLogCurl string string "(string \<times> string) list option" jsvalue
  | CLogApiResponse string jsvalue
  | CSetDebug bool
  | CClose
  | Tick string

fun exec :: "platform \<Rightarrow> call \<Rightarrow> state \<Rightarrow> exn + state" where
  "exec P (CInit cfg) s = init P cfg s"
| "exec P (CDebug m d) s = debug m d s"
| "exec P (CInfo m) s = info m s"
| "exec P (CWarn m) s = warn m s"
| "exec P (CError m e) s = error m e s"
| "exec P (CLogCurl m u hs b) s = logCurl m u hs b s"
| "exec P (CLogApiResponse n r) s = logApiResponse n r s"
| "exec P (CSetDebug b) s = Inr (setDebug b s)"
| "exec P CClose s = close s"
| "exec P (Tick t) s = Inr (s\<lparr>now := t\<rparr>)"

definition landing :: "exn + state \<Rightarrow> state \<Rightarrow> state" where
  "landing r s = (case r of Inl e \<Rightarrow> s | Inr s' \<Rightarrow> s')"

fun run :: "platform \<Rightarrow> call list \<Rightarrow> state \<Rightarrow> state" where
  "run P [] s = s"
| "run P (c # cs) s = run P cs (landing (exec P c s) s)"

fun emitting :: "call \<Rightarrow> bool" where
  "emitting (CDebug m d) = True"
| "emitting (CInfo m) = True"
| "emitting (CWarn m) = True"
| "emitting (CError m e) = True"
| "emitting (CLogCurl m u hs b) = True"
| "emitting (CLogApiResponse n r) = True"
| "emitting c = False"

fun is_init :: "call \<Rightarrow> bool" where
  "is_init (CInit cfg) = True"
| "is_init c = False"

text \<open>The level a call emits at.\<close>

fun call_level :: "call \<Rightarrow> LogLevel" where
  "call_level (CInfo m) = Info"
| "call_level (CWarn m) = Warn"
| "call_level (CError m e) = Error"
| "call_level c = Debug"

subsection \<open>Streams that are open\<close>

text \<open>
  \<open>stream_open s h p\<close>: the instance holds the stream \<open>h\<close>, which appends to \<open>p\<close> and
  is not closed. \<open>open_handles\<close> are the streams of the environment that are not closed;
  \<open>owned\<close> says that the instance holds every one of them: there is none, or the one
  the instance holds.
\<close>

definition stream_open :: "state \<Rightarrow> nat \<Rightarrow> path \<Rightarrow> bool" where
  "stream_open s h p =
     (fileStream s = Some h \<and> h < length (streams s) \<and> streams s ! h = (p, False))"

definition open_handles :: "state \<Rightarrow> nat list" where
  "open_handles s = filter (\<lambda>h. \<not> snd (streams s ! h)) [0..<length (streams s)]"

definition owned :: "state \<Rightarrow> bool" where
  "owned s =
     (case fileStream s of
        None \<Rightarrow> open_handles s = []
      | Some h \<Rightarrow> open_handles s = [] \<or> open_handles s = [h])"

text \<open>The content of a file, empty when the file does not exist.\<close>

definition content :: "state \<Rightarrow> path \<Rightarrow> string" where
  "content s p = (case files s p of None \<Rightarrow> [] | Some c \<Rightarrow> c)"

subsection \<open>Notions the properties are stated with\<close>

text \<open>The operation that emits a bare message at a level.\<close>

fun emit_at :: "LogLevel \<Rightarrow> string \<Rightarrow> call" where
  "emit_at Debug m = CDebug m Undefined"
| "emit_at Info m = CInfo m"
| "emit_at Warn m = CWarn m"
| "emit_at Error m = CError m Undefined"

text \<open>
  The error the platform answers \<open>init P cfg s\<close> with, if any: from the creation of
  the directory when it does not exist, else from the opening of the file.
\<close>

definition init_failure :: "platform \<Rightarrow> LoggerConfig \<Rightarrow> state \<Rightarrow> exn option" where
  "init_failure P cfg s =
     (let p = logFilePath P cfg; dir = dirname P p in
      if existsSync dir s then open_error P p
      else (case mkdir_error P dir of Some e \<Rightarrow> Some e | None \<Rightarrow> open_error P p))"

text \<open>
  The value a call hands to \<^verbatim>\<open>JSON.stringify\<close> when it gets that far, with the
  indentation asked for; \<open>serializes\<close>: there is none, or the serializer accepts it.
\<close>

fun payload :: "call \<Rightarrow> (nat \<times> jsvalue) option" where
  "payload (CDebug m d) = (if d \<noteq> Undefined then Some (2, d) else None)"
| "payload (CError m (ErrorObj d st)) = None"
| "payload (CError m e) = (if e \<noteq> Undefined then Some (2, e) else None)"
| "payload (CLogCurl m u hs (Str b)) = None"
| "payload (CLogCurl m u hs b) = (if truthy b then Some (0, b) else None)"
| "payload (CLogApiResponse n r) = Some (2, r)"
| "payload c = None"

definition serializes :: "call \<Rightarrow> bool" where
  "serializes c =
     (case payload c of
        None \<Rightarrow> True
      | Some (gap, v) \<Rightarrow> (case JSON_stringify gap v of Inl e \<Rightarrow> False | Inr j \<Rightarrow> True))"

fun is_debug_call :: "call \<Rightarrow> bool" where
  "is_debug_call (CDebug m d) = True"
| "is_debug_call c = False"

text \<open>The entries of the headers argument, none when it is missing.\<close>

definition entries :: "(string \<times> string) list option \<Rightarrow> (string \<times> string) list" where
  "entries headers = (case headers of None \<Rightarrow> [] | Some hs \<Rightarrow> hs)"

text \<open>
  The text of the body segment: none for a falsy body, a string as it is, the compact
  serialization of anything else.
\<close>

definition body_text :: "jsvalue \<Rightarrow> exn + string option" where
  "body_text body =
     (if truthy body
      then (case body of
              Str b \<Rightarrow> Inr (Some b)
            | _ \<Rightarrow> (case JSON_stringify 0 body of
                      Inl e \<Rightarrow> Inl e
                    | Inr j \<Rightarrow> Inr (Some (template j))))
      else Inr None)"

text \<open>
  The curl command in the words of the specification: method and URL, one
  line-continuation segment per header, and one for the body when there is a body text.
\<close>

definition header_segment :: "string \<times> string \<Rightarrow> string" where
  "header_segment kv = '' '' @ bsl @ nl @ ''  -H '' @ sq @ fst kv @ '': '' @ snd kv @ sq"

definition body_segment :: "string \<Rightarrow> string" where
  "body_segment b = '' '' @ bsl @ nl @ ''  -d '' @ sq @ b @ sq"

definition curl_command ::
  "string \<Rightarrow> string \<Rightarrow> (string \<times> string) list \<Rightarrow> string option \<Rightarrow> string" where
  "curl_command method url hs body =
     ''curl -X '' @ method @ '' '' @ sq @ url @ sq @ concat (map header_segment hs)
       @ (case body of None \<Rightarrow> [] | Some b \<Rightarrow> body_segment b)"

text \<open>The state after one chunk of text was appended to the file at a path.\<close>

definition appended :: "path \<Rightarrow> string \<Rightarrow> state \<Rightarrow> state" where
  "appended p chunk s = s\<lparr>files := (files s)(p \<mapsto> content s p @ chunk)\<rparr>"

text \<open>The upper-case tag of a level in a record.\<close>

fun LEVEL :: "LogLevel \<Rightarrow> string" where
  "LEVEL Debug = ''DEBUG''"
| "LEVEL Info = ''INFO''"
| "LEVEL Warn = ''WARN''"
| "LEVEL Error = ''ERROR''"

subsection \<open>A platform and an environment to run on\<close>

text \<open>
  \<^verbatim>\<open>path.posix.dirname\<close>: trailing slashes are skipped, then the last component; the
  first character is never cut.
\<close>

definition posix_dirname :: "path \<Rightarrow> path" where
  "posix_dirname p =
     (if p = [] then ''.''
      else
        (let hasRoot = (hd p = CHR ''/'');
             r = dropWhile (\<lambda>c. c \<noteq> CHR ''/'') (dropWhile (\<lambda>c. c = CHR ''/'') (rev (tl p)))
         in if r = [] then (if hasRoot then ''/'' else ''.'')
            else if hasRoot \<and> length r = 1 then ''//''
            else take (length r) p))"

text \<open>
  A POSIX machine on which every directory can be made and every file opened;
  \<open>join\<close> is right on segments that are already normalised.
\<close>

definition posix :: platform where
  "posix = \<lparr>tmpdir = ''/tmp'', dirname = posix_dirname,
            join = (\<lambda>a b. a @ ''/'' @ b),
            mkdir_error = (\<lambda>p. None), open_error = (\<lambda>p. None)\<rparr>"

text \<open>The same machine with a file system that refuses to open any file for writing.\<close>

definition readonly :: platform where
  "readonly = posix\<lparr>open_error := (\<lambda>p. Some (FsError ''EACCES''))\<rparr>"

text \<open>A fresh process: no file, the root and the temporary directory, no stream.\<close>

definition boot :: state where
  "boot = \<lparr>config = \<lparr>level = Info, file' = None\<rparr>, fileStream = None,
           files = Map.empty, dirs = {''/'', ''/tmp''}, streams = [], console = [],
           uncaught = [], now = ''2024-01-01T00:00:00.000Z''\<rparr>"

text \<open>
  The instance after \<^verbatim>\<open>init({ level: L })\<close> in the fresh process: the default file
  under \<^verbatim>\<open>/tmp\<close> is open.
\<close>

definition started :: "LogLevel \<Rightarrow> state" where
  "started L = landing (init posix \<lparr>level = L, file' = None\<rparr> boot) boot"

text \<open>A fresh process that finds a log file left by an earlier one.\<close>

definition relaunched :: state where
  "relaunched = boot\<lparr>files := [''/tmp/app.log'' \<mapsto> ''earlier run'' @ nl]\<rparr>"

text \<open>A host that initialises twice, on two paths, and logs after each.\<close>

definition two_sessions :: "call list" where
  "two_sessions =
     [CInit \<lparr>level = Info, file' = Some ''/tmp/first.log''\<rparr>,
      Tick ''2024-01-01T00:00:01.000Z'', CInfo ''one'',
      Tick ''2024-01-01T00:00:02.000Z'',
      CInit \<lparr>level = Info, file' = Some ''/tmp/second.log''\<rparr>,
      Tick ''2024-01-01T00:00:03.000Z'', CInfo ''two'']"

section \<open>Basic facts\<close>

lemma toUpperCase_levels:
  "toUpperCase (level_name Debug) = LEVEL Debug"
  "toUpperCase (level_name Info) = LEVEL Info"
  "toUpperCase (level_name Warn) = LEVEL Warn"
  "toUpperCase (level_name Error) = LEVEL Error"
  by code_simp+

lemma toUpperCase_level_name: "toUpperCase (level_name lvl) = LEVEL lvl"
  by (cases lvl) (simp_all only: toUpperCase_levels)

lemma formatMessage_eq:
  "formatMessage lvl m s = ''['' @ now s @ ''] ['' @ LEVEL lvl @ ''] '' @ m"
  by (simp add: formatMessage_def toUpperCase_level_name)

lemma stream_write_open: "stream_open s h p \<Longrightarrow> stream_write h d s = appended p d s"
  by (simp add: stream_open_def stream_write_def appended_def content_def split: option.splits)

lemma write_filtered: "\<not> shouldLog lvl s \<Longrightarrow> write' lvl m s = s"
  by (simp add: write'_def)

lemma write_no_stream: "fileStream s = None \<Longrightarrow> write' lvl m s = s"
  by (simp add: write'_def)

lemma write_open:
  "shouldLog lvl s \<Longrightarrow> stream_open s h p \<Longrightarrow>
   write' lvl m s = appended p (''['' @ now s @ ''] ['' @ LEVEL lvl @ ''] '' @ m @ nl) s"
  using stream_write_open [of s h p]
  by (simp add: write'_def formatMessage_eq stream_open_def)

lemma shouldLog_Error: "shouldLog Error s"
  by (cases "level (config s)") (simp_all add: shouldLog_def)

lemma curl_headers_eq: "curl_headers hs c = c @ concat (map header_segment hs)"
  by (induction hs arbitrary: c) (auto simp: header_segment_def)

lemma init_returns: "\<exists>s'. init P cfg s = Inr s'"
  by (simp add: init_def Let_def split: sum.splits prod.splits)

lemma config_init_try:
  "init_try P p s = Inr s' \<Longrightarrow> config s' = config s"
  "init_try P p s = Inl (e, s') \<Longrightarrow> config s' = config s"
  by (auto simp: init_try_def Let_def mkdirSync_def createWriteStream_def stream_write_def
      split: sum.splits option.splits if_splits)

lemma config_init: "init P cfg s = Inr s' \<Longrightarrow> config s' = cfg"
  by (auto simp: init_def Let_def console_error_def  split: sum.splits prod.splits dest: config_init_try)

lemma posix_dirname_tmp: "posix_dirname ''/tmp/ingest-music.log'' = ''/tmp''"
  by code_simp

lemma init_boot:
  "init posix \<lparr>level = L, file' = None\<rparr> boot =
     Inr \<lparr>config = \<lparr>level = L, file' = None\<rparr>, fileStream = Some 0,
          files = [''/tmp/ingest-music.log'' \<mapsto>
                     nl @ ''[2024-01-01T00:00:00.000Z] New session started'' @ nl],
          dirs = {''/'', ''/tmp''}, streams = [(''/tmp/ingest-music.log'', False)],
          console = [], uncaught = [], now = ''2024-01-01T00:00:00.000Z''\<rparr>"
  by (simp add: init_def close_existing_def logFilePath_def posix_def boot_def init_try_def
      posix_dirname_tmp existsSync_def createWriteStream_def stream_write_def Let_def)

lemma started_eq:
  "started L =
     \<lparr>config = \<lparr>level = L, file' = None\<rparr>, fileStream = Some 0,
          files = [''/tmp/ingest-music.log'' \<mapsto>
                     nl @ ''[2024-01-01T00:00:00.000Z] New session started'' @ nl],
          dirs = {''/'', ''/tmp''}, streams = [(''/tmp/ingest-music.log'', False)],
          console = [], uncaught = [], now = ''2024-01-01T00:00:00.000Z''\<rparr>"
  by (simp add: started_def init_boot landing_def)

lemma started_fields:
  "config (started L) = \<lparr>level = L, file' = None\<rparr>"
  "fileStream (started L) = Some 0"
  "streams (started L) = [(''/tmp/ingest-music.log'', False)]"
  "files (started L) ''/tmp/ingest-music.log'' = Some (nl @ ''[2024-01-01T00:00:00.000Z] New session started'' @ nl)"
  "now (started L) = ''2024-01-01T00:00:00.000Z''"
  "stream_open (started L) 0 ''/tmp/ingest-music.log''"
  by (simp_all add: started_eq stream_open_def)

lemma exec_emit_at: "exec P (emit_at lvl m) s = Inr (write' lvl m s)"
  by (cases lvl) (simp_all add: debug_def info_def warn_def error_def)

lemma filtered_call_lands:
  assumes "emitting c" and "\<not> shouldLog (call_level c) s"
  shows "landing (exec P c s) s = s"
  using assms
  by (cases c)
     (auto simp: landing_def debug_def info_def warn_def error_def logCurl_def
        logApiResponse_def write_filtered shouldLog_Error split: sum.splits)

lemma shouldLog_after_init:
  "init P \<lparr>level = L2, file' = f\<rparr> s = Inr s1 \<Longrightarrow>
   shouldLog L1 s1 = (LOG_LEVEL_PRIORITY L2 \<le> LOG_LEVEL_PRIORITY L1)"
  by (simp add: shouldLog_def config_init)

subsection \<open>Ending and opening streams\<close>

lemma open_handles_streams: "streams t = streams s \<Longrightarrow> open_handles t = open_handles s"
  by (simp add: open_handles_def)

lemma open_handles_snoc:
  assumes "streams t = streams s @ [(p, False)]"
  shows "open_handles t = open_handles s @ [length (streams s)]"
proof -
  have "filter (\<lambda>h. \<not> snd ((streams s @ [(p, False)]) ! h)) [0..<length (streams s)] =
        filter (\<lambda>h. \<not> snd (streams s ! h)) [0..<length (streams s)]"
    by (rule filter_cong) (simp_all add: nth_append)
  then show ?thesis
    using assms by (simp add: open_handles_def)
qed

lemma open_handles_snoc_closed:
  assumes "streams t = streams s @ [(p, True)]"
  shows "open_handles t = open_handles s"
proof -
  have "filter (\<lambda>h. \<not> snd ((streams s @ [(p, True)]) ! h)) [0..<length (streams s)] =
        filter (\<lambda>h. \<not> snd (streams s ! h)) [0..<length (streams s)]"
    by (rule filter_cong) (simp_all add: nth_append)
  then show ?thesis
    using assms by (simp add: open_handles_def)
qed

lemma open_handles_end:
  "open_handles (stream_end h s) = filter (\<lambda>k. k \<noteq> h) (open_handles s)"
proof (cases "h < length (streams s)")
  case True
  have "filter (\<lambda>k. \<not> snd ((streams s)[h := (fst (streams s ! h), True)] ! k))
          [0..<length (streams s)] =
        filter (\<lambda>k. \<not> snd (streams s ! k) \<and> k \<noteq> h) [0..<length (streams s)]"
  proof (rule filter_cong)
    fix k assume "k \<in> set [0..<length (streams s)]"
    then show "(\<not> snd ((streams s)[h := (fst (streams s ! h), True)] ! k)) =
               (\<not> snd (streams s ! k) \<and> k \<noteq> h)"
      by (cases "k = h") simp_all
  qed simp
  with True show ?thesis
    by (simp add: open_handles_def stream_end_def)
next
  case False
  have "\<forall>k \<in> set (open_handles s). k \<noteq> h"
    using False by (auto simp: open_handles_def)
  then have "filter (\<lambda>k. k \<noteq> h) (open_handles s) = open_handles s"
    by (rule filter_True)
  with False show ?thesis
    by (simp add: stream_end_def)
qed

lemma close_existing_fields:
  "fileStream (close_existing s) = None"
  "files (close_existing s) = files s"
  "dirs (close_existing s) = dirs s"
  "console (close_existing s) = console s"
  "config (close_existing s) = config s"
  "now (close_existing s) = now s"
  "uncaught (close_existing s) = uncaught s"
  "length (streams (close_existing s)) = length (streams s)"
  by (simp_all add: close_existing_def stream_end_def split: option.splits)

lemma close_existing_owned: "owned s \<Longrightarrow> open_handles (close_existing s) = []"
proof (cases "fileStream s")
  case None
  assume "owned s"
  with None show ?thesis by (simp add: owned_def close_existing_def)
next
  case (Some h)
  assume "owned s"
  with Some have "open_handles s = [] \<or> open_handles s = [h]" by (simp add: owned_def)
  moreover have "open_handles (close_existing s) = open_handles (stream_end h s)"
    using Some by (simp add: close_existing_def open_handles_def)
  ultimately show ?thesis by (auto simp: open_handles_end)
qed

lemma close_existing_ends:
  "stream_open s h p \<Longrightarrow> streams (close_existing s) = (streams s)[h := (p, True)]"
  by (simp add: stream_open_def close_existing_def stream_end_def)

subsection \<open>The two outcomes of init\<close>

lemma existsSync_prelude:
  "existsSync d ((close_existing s)\<lparr>config := cfg\<rparr>) = existsSync d s"
  by (simp add: existsSync_def close_existing_fields)

lemma init_success:
  assumes "init_failure P cfg s = None"
  shows "\<exists>s'. init P cfg s = Inr s' \<and> config s' = cfg \<and>
           fileStream s' = Some (length (streams s)) \<and>
           streams s' = streams (close_existing s) @ [(logFilePath P cfg, False)] \<and>
           files s' = (files s)(logFilePath P cfg \<mapsto>
              content s (logFilePath P cfg) @ nl @ ''['' @ now s @ ''] New session started'' @ nl) \<and>
           console s' = console s \<and> uncaught s' = uncaught s \<and> now s' = now s"
  using assms
  by (auto simp: init_failure_def init_def init_try_def Let_def existsSync_prelude
        mkdirSync_def createWriteStream_def stream_write_def close_existing_fields content_def
        nth_append
      split: option.splits if_splits)

text \<open>The directory cannot be made: \<^verbatim>\<open>fs.mkdirSync\<close> throws and the catch block runs.\<close>

lemma init_mkdir_fails:
  assumes "\<not> existsSync (dirname P (logFilePath P cfg)) s"
    and "mkdir_error P (dirname P (logFilePath P cfg)) = Some e"
  shows "\<exists>s'. init P cfg s = Inr s' \<and> config s' = cfg \<and> fileStream s' = None \<and>
           streams s' = streams (close_existing s) \<and> files s' = files s \<and>
           console s' = console s @ [(''Failed to open log file '' @ logFilePath P cfg @ '':'', e)] \<and>
           uncaught s' = uncaught s \<and> now s' = now s"
  using assms
  by (auto simp: init_def init_try_def Let_def existsSync_prelude
        mkdirSync_def console_error_def close_existing_fields)

text \<open>
  The file cannot be opened: nothing is thrown, so the catch block does not run. The
  instance keeps the destroyed stream, nothing is printed, and the error is an event
  nobody listens to.
\<close>

lemma init_open_fails:
  assumes "existsSync (dirname P (logFilePath P cfg)) s \<or>
           mkdir_error P (dirname P (logFilePath P cfg)) = None"
    and "open_error P (logFilePath P cfg) = Some e"
  shows "\<exists>s'. init P cfg s = Inr s' \<and> config s' = cfg \<and>
           fileStream s' = Some (length (streams s)) \<and>
           streams s' = streams (close_existing s) @ [(logFilePath P cfg, True)] \<and>
           files s' = files s \<and> console s' = console s \<and>
           uncaught s' = uncaught s @ [e] \<and> now s' = now s"
  using assms
  by (auto simp: init_def init_try_def Let_def existsSync_prelude
        mkdirSync_def createWriteStream_def stream_write_def close_existing_fields
        nth_append
      split: option.splits if_splits)

lemma init_failure_cases:
  assumes "init_failure P cfg s = Some e"
  obtains (mkdir) "\<not> existsSync (dirname P (logFilePath P cfg)) s"
      and "mkdir_error P (dirname P (logFilePath P cfg)) = Some e"
    | (openfile) "existsSync (dirname P (logFilePath P cfg)) s \<or>
           mkdir_error P (dirname P (logFilePath P cfg)) = None"
      and "open_error P (logFilePath P cfg) = Some e"
  using assms
  by (auto simp: init_failure_def Let_def split: if_splits option.splits)

subsection \<open>What an emitting call comes to\<close>

lemma debug_plain: "debug m Undefined s = Inr (write' Debug m s)"
  by (simp add: debug_def)

lemma logCurl_eq:
  "logCurl m u hs body s =
     (if \<not> shouldLog Debug s then Inr s
      else (case body_text body of
              Inl e \<Rightarrow> Inl e
            | Inr bt \<Rightarrow>
                Inr (write' Debug (''API Call:'' @ nl @ curl_command m u (entries hs) bt) s)))"
proof (cases "truthy body")
  case False
  then show ?thesis
    by (simp add: logCurl_def Let_def body_text_def curl_headers_eq curl_command_def
          debug_plain entries_def split: option.splits)
next
  case True
  show ?thesis
  proof (cases "\<exists>b. body = Str b")
    case True
    then obtain b where "body = Str b" by blast
    with \<open>truthy body\<close> show ?thesis
      by (simp add: logCurl_def Let_def body_text_def curl_headers_eq curl_command_def
            debug_plain entries_def body_segment_def split: option.splits)
  next
    case False
    then have other: "(case body of Str b \<Rightarrow> f b | _ \<Rightarrow> g) = g" for f :: "string \<Rightarrow> 'a" and g
      by (cases body) simp_all
    from \<open>truthy body\<close> show ?thesis
      by (simp add: logCurl_def Let_def body_text_def other curl_headers_eq curl_command_def
            debug_plain entries_def body_segment_def split: option.splits sum.splits)
  qed
qed

lemma emitting_cases:
  assumes "emitting c"
  obtains (raise) e where "exec P c s = Inl e" and "\<not> serializes c"
    | (emit) full where "exec P c s = Inr (write' (call_level c) full s)" and "serializes c"
    | (skip) "exec P c s = Inr s" and "\<not> shouldLog (call_level c) s" and "\<not> is_debug_call c"
proof (cases c)
  case (CDebug m d)
  show ?thesis
  proof (cases "d = Undefined")
    case True
    with CDebug have "exec P c s = Inr (write' (call_level c) m s)" "serializes c"
      by (simp_all add: debug_def serializes_def)
    then show ?thesis by (rule emit)
  next
    case False
    show ?thesis
    proof (cases "JSON_stringify 2 d")
      case (Inl e)
      with CDebug False have "exec P c s = Inl e" "\<not> serializes c"
        by (simp_all add: debug_def serializes_def)
      then show ?thesis by (rule raise)
    next
      case (Inr j)
      with CDebug False
      have "exec P c s = Inr (write' (call_level c) (m @ nl @ template j) s)" "serializes c"
        by (simp_all add: debug_def serializes_def)
      then show ?thesis by (rule emit)
    qed
  qed
next
  case (CInfo m)
  then have "exec P c s = Inr (write' (call_level c) m s)" "serializes c"
    by (simp_all add: info_def serializes_def)
  then show ?thesis by (rule emit)
next
  case (CWarn m)
  then have "exec P c s = Inr (write' (call_level c) m s)" "serializes c"
    by (simp_all add: warn_def serializes_def)
  then show ?thesis by (rule emit)
next
  case (CError m v)
  show ?thesis
  proof (cases "v = Undefined \<or> (\<exists>d st. v = ErrorObj d st)")
    case True
    with CError have "\<exists>full. exec P c s = Inr (write' (call_level c) full s)" "serializes c"
      by (auto simp: error_def serializes_def)
    then show ?thesis using emit by blast
  next
    case False
    then have other: "(case v of ErrorObj d st \<Rightarrow> f d st | _ \<Rightarrow> g) = g"
      for f :: "string \<Rightarrow> string option \<Rightarrow> 'a" and g
      by (cases v) simp_all
    from False have pay: "payload (CError m v) = Some (2, v)"
      by (cases v) simp_all
    show ?thesis
    proof (cases "JSON_stringify 2 v")
      case (Inl e)
      with CError False have "exec P c s = Inl e" "\<not> serializes c"
        by (simp_all add: error_def other serializes_def pay)
      then show ?thesis by (rule raise)
    next
      case (Inr j)
      with CError False
      have "exec P c s = Inr (write' (call_level c) (m @ nl @ template j) s)" "serializes c"
        by (simp_all add: error_def other serializes_def pay)
      then show ?thesis by (rule emit)
    qed
  qed
next
  case (CLogCurl m u hs body)
  show ?thesis
  proof (cases "shouldLog Debug s")
    case False
    with CLogCurl have "exec P c s = Inr s" "\<not> shouldLog (call_level c) s" "\<not> is_debug_call c"
      by (simp_all add: logCurl_eq)
    then show ?thesis by (rule skip)
  next
    case True
    have ser: "serializes (CLogCurl m u hs body) = (\<forall>e. body_text body \<noteq> Inl e)"
      by (cases body) (auto simp: serializes_def body_text_def split: sum.splits)
    show ?thesis
    proof (cases "body_text body")
      case (Inl e)
      with CLogCurl True have "exec P c s = Inl e" "\<not> serializes c"
        by (simp_all add: logCurl_eq ser)
      then show ?thesis by (rule raise)
    next
      case (Inr bt)
      with CLogCurl True
      have "exec P c s =
          Inr (write' (call_level c) (''API Call:'' @ nl @ curl_command m u (entries hs) bt) s)"
        "serializes c"
        by (simp_all add: logCurl_eq ser)
      then show ?thesis by (rule emit)
    qed
  qed
next
  case (CLogApiResponse n r)
  show ?thesis
  proof (cases "shouldLog Debug s")
    case False
    with CLogApiResponse
    have "exec P c s = Inr s" "\<not> shouldLog (call_level c) s" "\<not> is_debug_call c"
      by (simp_all add: logApiResponse_def)
    then show ?thesis by (rule skip)
  next
    case True
    show ?thesis
    proof (cases "JSON_stringify 2 r")
      case (Inl e)
      with CLogApiResponse True have "exec P c s = Inl e" "\<not> serializes c"
        by (simp_all add: logApiResponse_def serializes_def)
      then show ?thesis by (rule raise)
    next
      case (Inr j)
      with CLogApiResponse True
      have "exec P c s =
          Inr (write' (call_level c) (n @ '' Response:'' @ nl @ template j) s)" "serializes c"
        by (simp_all add: logApiResponse_def serializes_def debug_plain)
      then show ?thesis by (rule emit)
    qed
  qed
qed (use assms in simp_all)

subsection \<open>Calls while no stream is open\<close>

lemma emitting_no_stream:
  assumes "fileStream s = None" and "emitting c"
  shows "landing (exec P c s) s = s"
  using assms(2)
proof (cases rule: emitting_cases [where P = P and s = s])
  case (raise e)
  then show ?thesis by (simp add: landing_def)
next
  case (emit full)
  with assms(1) show ?thesis by (simp add: landing_def write_no_stream)
next
  case skip
  then show ?thesis by (simp add: landing_def)
qed

lemma call_no_stream:
  assumes "fileStream s = None" and "\<not> is_init c"
  shows "files (landing (exec P c s) s) = files s \<and>
         fileStream (landing (exec P c s) s) = None \<and>
         streams (landing (exec P c s) s) = streams s \<and>
         console (landing (exec P c s) s) = console s"
proof (cases "emitting c")
  case True
  with assms(1) show ?thesis by (simp add: emitting_no_stream)
next
  case False
  with assms show ?thesis
    by (cases c) (simp_all add: landing_def setDebug_def close_def)
qed

lemma run_no_stream:
  "fileStream s = None \<Longrightarrow> list_all (\<lambda>c. \<not> is_init c) cs \<Longrightarrow>
   files (run P cs s) = files s \<and> fileStream (run P cs s) = None \<and>
   streams (run P cs s) = streams s \<and> console (run P cs s) = console s"
proof (induction cs arbitrary: s)
  case Nil
  then show ?case by simp
next
  case (Cons c cs)
  from Cons.prems have c: "\<not> is_init c" and cs: "list_all (\<lambda>c. \<not> is_init c) cs"
    by simp_all
  note step = call_no_stream [OF Cons.prems(1) c, of P]
  from step have "fileStream (landing (exec P c s) s) = None" by simp
  from Cons.IH [OF this cs] step show ?case by simp
qed

subsection \<open>close\<close>

lemma close_open:
  "stream_open s h p \<Longrightarrow>
   close s = Inr ((appended p (''['' @ now s @ ''] Session ended'' @ nl) s)
                    \<lparr>streams := (streams s)[h := (p, True)], fileStream := None\<rparr>)"
  by (simp add: close_def stream_write_open stream_end_def appended_def stream_open_def)

lemma close_no_stream: "fileStream s = None \<Longrightarrow> close s = Inr s"
  by (simp add: close_def)

lemma close_returns: "\<exists>s'. close s = Inr s' \<and> fileStream s' = None"
  by (simp add: close_def split: option.splits)

lemma close_owned:
  assumes "owned s" and "close s = Inr s'"
  shows "open_handles s' = []"
proof (cases "fileStream s")
  case None
  with assms show ?thesis by (auto simp: close_def owned_def)
next
  case (Some h)
  with assms(1) have "open_handles s = [] \<or> open_handles s = [h]" by (simp add: owned_def)
  moreover have "streams (stream_write h d s) = streams s" for d
    by (simp add: stream_write_def)
  then have "open_handles (stream_end h (stream_write h d s)) = open_handles (stream_end h s)" for d
    by (simp add: open_handles_def stream_end_def)
  moreover have "open_handles s' =
      open_handles (stream_end h (stream_write h (''['' @ now s @ ''] Session ended'' @ nl) s))"
    using Some assms(2) by (auto simp: close_def open_handles_def)
  ultimately show ?thesis
    by (auto simp: open_handles_end)
qed

lemma started_owned: "owned (started L)" "open_handles (started L) = [0]"
  by (simp_all add: owned_def open_handles_def started_fields)

lemma init_failure_readonly:
  "init_failure readonly \<lparr>level = L, file' = None\<rparr> boot = Some (FsError ''EACCES'')"
  by (simp add: init_failure_def readonly_def posix_def logFilePath_def posix_dirname_tmp
        existsSync_def boot_def)

lemma init_failure_posix:
  "init_failure posix cfg s = None"
  by (simp add: init_failure_def posix_def Let_def)

lemma logFilePath_posix_default:
  "logFilePath readonly \<lparr>level = L, file' = None\<rparr> = ''/tmp/ingest-music.log''"
  "logFilePath posix \<lparr>level = L, file' = None\<rparr> = ''/tmp/ingest-music.log''"
  by (simp_all add: logFilePath_def readonly_def posix_def)

lemma boot_owned: "owned boot"
  by (simp add: owned_def open_handles_def boot_def)

subsection \<open>error\<close>

lemma error_plain: "error m Undefined s = Inr (write' Error m s)"
  by (simp add: error_def)

lemma error_Error:
  "error m (ErrorObj d st) s =
     Inr (write' Error (m @ nl @ d @ nl @ (case st of None \<Rightarrow> [] | Some t \<Rightarrow> t)) s)"
  by (simp add: error_def)

lemma error_value:
  assumes "v \<noteq> Undefined" and "\<forall>d st. v \<noteq> ErrorObj d st" and "JSON_stringify 2 v = Inr j"
  shows "error m v s = Inr (write' Error (m @ nl @ template j) s)"
  using assms by (cases v) (simp_all add: error_def)

lemma error_rejected:
  assumes "v \<noteq> Undefined" and "\<forall>d st. v \<noteq> ErrorObj d st" and "JSON_stringify 2 v = Inl e"
  shows "error m v s = Inl e"
  using assms by (cases v) (simp_all add: error_def)

lemma stringify_defined: "v \<noteq> Undefined \<Longrightarrow> JSON_stringify gap v \<noteq> Inr None"
  by (cases v) (auto simp: JSON_stringify_def split: sum.splits)

lemma stringify_code_7:
  "JSON_stringify 2 (Obj [(''code'', Num 7)]) =
     Inr (Some (''{'' @ nl @ ''  '' @ dq @ ''code'' @ dq @ '': 7'' @ nl @ ''}''))"
  by code_simp

subsection \<open>logCurl\<close>

lemma body_text_falsy: "\<not> truthy body \<Longrightarrow> body_text body = Inr None"
  by (simp add: body_text_def)

lemma body_text_string: "truthy (Str b) \<Longrightarrow> body_text (Str b) = Inr (Some b)"
  by (simp add: body_text_def)

lemma body_text_other:
  assumes "truthy body" and "\<forall>b. body \<noteq> Str b" and "JSON_stringify 0 body = Inr (Some j)"
  shows "body_text body = Inr (Some j)"
  using assms by (cases body) (simp_all add: body_text_def)

lemma logCurl_open:
  assumes "shouldLog Debug s" and "stream_open s h p" and "body_text body = Inr bt"
  shows "logCurl m u hs body s =
     Inr (appended p (''['' @ now s @ ''] [DEBUG] API Call:'' @ nl
                        @ curl_command m u (entries hs) bt @ nl) s)"
  using assms write_open [OF assms(1,2)] by (simp add: logCurl_eq)

lemma init_same_path:
  assumes "logFilePath P cfg' = logFilePath P cfg" and "init P cfg s = Inr s'"
  shows "init P cfg' s = Inr (s'\<lparr>config := cfg'\<rparr>)"
  using assms
  by (auto simp: init_def init_try_def Let_def existsSync_def mkdirSync_def
        createWriteStream_def stream_write_def console_error_def
      split: option.splits if_splits)

lemma sublist_curl_head:
  "sublist (''curl -X '' @ m @ '' '' @ sq @ u @ sq) (curl_command m u hs bt)"
proof -
  have "curl_command m u hs bt =
      [] @ (''curl -X '' @ m @ '' '' @ sq @ u @ sq)
         @ (concat (map header_segment hs) @ (case bt of None \<Rightarrow> [] | Some b \<Rightarrow> body_segment b))"
    by (simp add: curl_command_def)
  then show ?thesis
    unfolding sublist_def by blast
qed

lemma sublist_concat_member: "x \<in> set xs \<Longrightarrow> sublist x (concat xs)"
proof -
  assume "x \<in> set xs"
  then obtain ys zs where "xs = ys @ x # zs"
    by (auto simp: in_set_conv_decomp)
  then have "concat xs = concat ys @ x @ concat zs"
    by simp
  then show ?thesis
    unfolding sublist_def by blast
qed

lemma sublist_curl_header:
  assumes "kv \<in> set hs"
  shows "sublist (header_segment kv) (curl_command m u hs bt)"
proof -
  from assms have "sublist (header_segment kv) (concat (map header_segment hs))"
    by (intro sublist_concat_member) simp
  then obtain ps ss where "concat (map header_segment hs) = ps @ header_segment kv @ ss"
    unfolding sublist_def by blast
  then have "curl_command m u hs bt =
      (''curl -X '' @ m @ '' '' @ sq @ u @ sq @ ps) @ header_segment kv
        @ (ss @ (case bt of None \<Rightarrow> [] | Some b \<Rightarrow> body_segment b))"
    by (simp add: curl_command_def)
  then show ?thesis
    unfolding sublist_def by blast
qed

lemma suffix_curl_body: "suffix (body_segment b) (curl_command m u hs (Some b))"
  by (simp add: curl_command_def suffix_def)

lemma shouldLog_Debug: "shouldLog Debug s = (level (config s) = Debug)"
  by (cases "level (config s)") (simp_all add: shouldLog_def)

lemma stringify_k_1:
  "JSON_stringify 0 (Obj [(''k'', Num 1)]) = Inr (Some (''{'' @ dq @ ''k'' @ dq @ '':1}''))"
  by code_simp

lemma started_Debug_empty_body:
  "logCurl ''POST'' ''http://x/y'' None (Str []) (started Debug) =
     Inr (appended ''/tmp/ingest-music.log''
            (''[2024-01-01T00:00:00.000Z] [DEBUG] API Call:'' @ nl
               @ ''curl -X POST '' @ sq @ ''http://x/y'' @ sq @ nl)
            (started Debug))"
proof -
  have "shouldLog Debug (started Debug)"
    "stream_open (started Debug) 0 ''/tmp/ingest-music.log''"
    "body_text (Str []) = Inr None"
    by (simp_all add: shouldLog_def started_fields body_text_def)
  from logCurl_open [OF this] show ?thesis
    by (simp add: curl_command_def entries_def started_fields)
qed

subsection \<open>What a write can change\<close>

lemma write_frame:
  "config (write' lvl m s) = config s"
  "fileStream (write' lvl m s) = fileStream s"
  "streams (write' lvl m s) = streams s"
  "console (write' lvl m s) = console s"
  "dirs (write' lvl m s) = dirs s"
  "uncaught (write' lvl m s) = uncaught s"
  "now (write' lvl m s) = now s"
  by (simp_all add: write'_def stream_write_def split: option.splits)

lemma write_other_files:
  assumes "\<forall>h. \<not> stream_open s h q"
  shows "files (write' lvl m s) q = files s q"
proof (cases "fileStream s")
  case None
  then show ?thesis by (simp add: write_no_stream)
next
  case (Some h)
  with assms have "\<not> (h < length (streams s) \<and> streams s ! h = (q, False))"
    by (simp add: stream_open_def)
  then have "h < length (streams s) \<Longrightarrow> \<not> snd (streams s ! h) \<Longrightarrow> fst (streams s ! h) \<noteq> q"
    by (cases "streams s ! h") auto
  with Some show ?thesis
    by (auto simp: write'_def stream_write_def Let_def)
qed

subsection \<open>Initialising again\<close>

lemma reinit_old_file:
  assumes "stream_open s h p1" and "logFilePath P cfg \<noteq> p1" and "init P cfg s = Inr s'"
  shows "files s' p1 = files s p1 \<and> streams s' ! h = (p1, True)"
proof (cases "init_failure P cfg s")
  case None
  from init_success [OF None] assms show ?thesis
    by (auto simp: close_existing_ends stream_open_def nth_append)
next
  case (Some e)
  then show ?thesis
  proof (cases rule: init_failure_cases)
    case mkdir
    from init_mkdir_fails [OF mkdir] assms show ?thesis
      by (auto simp: close_existing_ends stream_open_def)
  next
    case openfile
    from init_open_fails [OF openfile] assms show ?thesis
      by (auto simp: close_existing_ends stream_open_def nth_append)
  qed
qed

lemma posix_dirname_examples:
  "posix_dirname ''/tmp/first.log'' = ''/tmp''"
  "posix_dirname ''/tmp/second.log'' = ''/tmp''"
  by code_simp+

subsection \<open>The instance holds every open stream\<close>

lemma owned_stream_open:
  assumes "owned s" and "fileStream s = Some h" and "open_handles s \<noteq> []"
  shows "\<exists>p. stream_open s h p"
proof -
  from assms have "h \<in> set (open_handles s)"
    by (simp add: owned_def)
  then have "h < length (streams s)" "\<not> snd (streams s ! h)"
    by (simp_all add: open_handles_def)
  with assms(2) have "stream_open s h (fst (streams s ! h))"
    by (cases "streams s ! h") (simp add: stream_open_def)
  then show ?thesis ..
qed

lemma owned_init:
  assumes "owned s" and "init P cfg s = Inr s'"
  shows "owned s'"
proof (cases "init_failure P cfg s")
  case None
  from init_success [OF None] assms(2) have s': "fileStream s' = Some (length (streams s))"
    "streams s' = streams (close_existing s) @ [(logFilePath P cfg, False)]"
    by auto
  from open_handles_snoc [OF s'(2)] assms(1) s'(1) show ?thesis
    by (simp add: owned_def close_existing_owned close_existing_fields)
next
  case (Some e)
  then show ?thesis
  proof (cases rule: init_failure_cases)
    case mkdir
    from init_mkdir_fails [OF mkdir] assms(2) have s': "fileStream s' = None"
      "streams s' = streams (close_existing s)"
      by auto
    from open_handles_streams [OF s'(2)] assms(1) s'(1) show ?thesis
      by (simp add: owned_def close_existing_owned)
  next
    case openfile
    from init_open_fails [OF openfile] assms(2) have s': "fileStream s' = Some (length (streams s))"
      "streams s' = streams (close_existing s) @ [(logFilePath P cfg, True)]"
      by auto
    from open_handles_snoc_closed [OF s'(2)] assms(1) s'(1) show ?thesis
      by (simp add: owned_def close_existing_owned)
  qed
qed

lemma owned_frame:
  "streams s' = streams s \<Longrightarrow> fileStream s' = fileStream s \<Longrightarrow> owned s' = owned s"
  using open_handles_streams [of s' s] by (simp add: owned_def split: option.splits)

lemma owned_exec:
  assumes "owned s"
  shows "owned (landing (exec P c s) s)"
proof (cases "emitting c")
  case True
  then show ?thesis
  proof (cases rule: emitting_cases [where P = P and s = s])
    case (raise e)
    with assms show ?thesis by (simp add: landing_def)
  next
    case (emit full)
    with assms show ?thesis
      by (simp add: landing_def owned_frame [of "write' (call_level c) full s" s] write_frame)
  next
    case skip
    with assms show ?thesis by (simp add: landing_def)
  qed
next
  case False
  show ?thesis
  proof (cases c)
    case (CInit cfg)
    obtain s' where "init P cfg s = Inr s'"
      using init_returns by blast
    with CInit assms show ?thesis
      by (simp add: landing_def owned_init)
  next
    case (CSetDebug b)
    have "owned (setDebug b s) = owned s"
      by (rule owned_frame) (simp_all add: setDebug_def)
    with CSetDebug assms show ?thesis
      by (simp add: landing_def)
  next
    case CClose
    obtain s' where s': "close s = Inr s'" "fileStream s' = None"
      using close_returns by blast
    with close_owned [OF assms s'(1)] CClose show ?thesis
      by (simp add: landing_def owned_def)
  next
    case (Tick t)
    with assms show ?thesis
      by (simp add: landing_def owned_frame [of "s\<lparr>now := t\<rparr>" s])
  qed (use False in simp_all)
qed

lemma owned_run: "owned s \<Longrightarrow> owned (run P cs s)"
  by (induction cs arbitrary: s) (simp_all add: owned_exec)

lemma owned_new_Logger: "list_all snd (streams s) \<Longrightarrow> owned (new_Logger s)"
  by (simp add: owned_def open_handles_def new_Logger_def list_all_length filter_empty_conv)

section \<open>The claims\<close>

text \<open>
  C1. Initialising again on a second path ends the first stream before the second is
  opened, and the records emitted afterwards go to the second file. The first file,
  though, does not end with a session-end marker: \<^verbatim>\<open>init\<close> ends the old stream
  without the line that \<^verbatim>\<open>close\<close> writes. In this run the last line of the first file
  is its last record.
\<close>

theorem reinit_writes_no_end_marker:
  "files (run posix two_sessions boot) ''/tmp/first.log'' =
     Some (nl @ ''[2024-01-01T00:00:00.000Z] New session started'' @ nl
           @ ''[2024-01-01T00:00:01.000Z] [INFO] one'' @ nl) \<and>
   files (run posix two_sessions boot) ''/tmp/second.log'' =
     Some (nl @ ''[2024-01-01T00:00:02.000Z] New session started'' @ nl
           @ ''[2024-01-01T00:00:03.000Z] [INFO] two'' @ nl) \<and>
   streams (run posix two_sessions boot) =
     [(''/tmp/first.log'', True), (''/tmp/second.log'', False)] \<and>
   fileStream (run posix two_sessions boot) = Some 1"
  by (simp add: two_sessions_def landing_def init_def close_existing_def logFilePath_def
        posix_def boot_def init_try_def posix_dirname_examples existsSync_def
        createWriteStream_def stream_write_def stream_end_def Let_def info_def write'_def
        shouldLog_def formatMessage_eq)

text \<open>
  C2 as stated fails twice, on a payload \<^verbatim>\<open>JSON.stringify\<close> refuses. In the fresh
  instance (level info, no stream) \<^verbatim>\<open>debug\<close> is below the threshold and still raises,
  because it serializes before the level is looked at; and \<^verbatim>\<open>error\<close>, whose level
  passes, raises instead of dropping the record.
\<close>

theorem suppressed_debug_raises_counterexample:
  "\<not> shouldLog Debug (new_Logger boot) \<and>
   debug ''m'' (BigInt 1) (new_Logger boot) =
     Inl (TypeError ''Do not know how to serialize a BigInt'') \<and>
   shouldLog Error (new_Logger boot) \<and>
   fileStream (new_Logger boot) = None \<and>
   error ''m'' (BigInt 1) (new_Logger boot) =
     Inl (TypeError ''Do not know how to serialize a BigInt'')"
  by (simp add: shouldLog_def new_Logger_def debug_def error_def JSON_stringify_def)

text \<open>
  C2, as the code has it. For an emitting call: when its level is below the threshold it
  returns the state as it is, for every argument if it is \<^verbatim>\<open>info\<close>, \<^verbatim>\<open>warn\<close>,
  \<^verbatim>\<open>logCurl\<close> or \<^verbatim>\<open>logApiResponse\<close> (the payload is not looked at), and for \<^verbatim>\<open>debug\<close>
  when its data is missing or serializable. When no stream is open and the payload is
  missing or serializable, it returns the state as it is. When the level passes and the
  serializer refuses the payload, it raises. It raises only on a payload the serializer
  refuses, and then only when the level passes or the call is \<^verbatim>\<open>debug\<close>. When it
  returns, the configuration, the handle, the streams, the console, the uncaught errors,
  the directories and the clock are as before, and so is every file but the one the
  current stream appends to.
\<close>

theorem emitting_calls_gate_and_discard:
  assumes "emitting c"
  shows "(\<not> shouldLog (call_level c) s \<and> (is_debug_call c \<longrightarrow> serializes c) \<longrightarrow>
            exec P c s = Inr s) \<and>
         (fileStream s = None \<and> serializes c \<longrightarrow> exec P c s = Inr s) \<and>
         (shouldLog (call_level c) s \<and> \<not> serializes c \<longrightarrow> (\<exists>e. exec P c s = Inl e)) \<and>
         (\<forall>e. exec P c s = Inl e \<longrightarrow>
              \<not> serializes c \<and> (shouldLog (call_level c) s \<or> is_debug_call c)) \<and>
         (\<forall>s'. exec P c s = Inr s' \<longrightarrow>
              config s' = config s \<and> fileStream s' = fileStream s \<and>
              streams s' = streams s \<and> console s' = console s \<and>
              uncaught s' = uncaught s \<and> dirs s' = dirs s \<and> now s' = now s \<and>
              (\<forall>q. (\<forall>h. \<not> stream_open s h q) \<longrightarrow> files s' q = files s q))"
  using assms
proof (cases rule: emitting_cases [where P = P and s = s])
  case (raise e)
  have "shouldLog (call_level c) s \<or> is_debug_call c"
  proof (rule ccontr)
    assume "\<not> (shouldLog (call_level c) s \<or> is_debug_call c)"
    then have "landing (exec P c s) s = s" "\<not> is_debug_call c" "\<not> shouldLog (call_level c) s"
      using assms by (simp_all add: filtered_call_lands)
    with assms raise(1) show False
      by (cases c) (simp_all add: logCurl_eq logApiResponse_def info_def warn_def shouldLog_Error)
  qed
  with raise show ?thesis by simp
next
  case (emit full)
  then show ?thesis
    by (simp add: write_filtered write_no_stream write_frame write_other_files)
next
  case skip
  then show ?thesis by simp
qed

theorem emitting_calls_gate_and_discard_witness:
  "emitting (CLogApiResponse ''tracks'' (BigInt 1)) \<and>
   \<not> shouldLog (call_level (CLogApiResponse ''tracks'' (BigInt 1))) (started Info) \<and>
   \<not> is_debug_call (CLogApiResponse ''tracks'' (BigInt 1)) \<and>
   exec posix (CLogApiResponse ''tracks'' (BigInt 1)) (started Info) = Inr (started Info) \<and>
   emitting (CWarn ''low disk'') \<and>
   shouldLog (call_level (CWarn ''low disk'')) (new_Logger boot) \<and>
   fileStream (new_Logger boot) = None \<and>
   serializes (CWarn ''low disk'') \<and>
   exec posix (CWarn ''low disk'') (new_Logger boot) = Inr (new_Logger boot)"
proof -
  let ?c = "CLogApiResponse ''tracks'' (BigInt 1)"
  have e: "emitting ?c" "emitting (CWarn ''low disk'')"
    by simp_all
  note T = emitting_calls_gate_and_discard [OF e(1), of "started Info" posix]
  note U = emitting_calls_gate_and_discard [OF e(2), of "new_Logger boot" posix]
  have a: "\<not> shouldLog (call_level ?c) (started Info)" "\<not> is_debug_call ?c"
    by (simp_all add: shouldLog_def started_fields)
  with T have x: "exec posix ?c (started Info) = Inr (started Info)"
    by blast
  have b: "shouldLog (call_level (CWarn ''low disk'')) (new_Logger boot)"
    "fileStream (new_Logger boot) = None" "serializes (CWarn ''low disk'')"
    by (simp_all add: shouldLog_def new_Logger_def serializes_def)
  with U have "exec posix (CWarn ''low disk'') (new_Logger boot) = Inr (new_Logger boot)"
    by blast
  with e a x b show ?thesis
    by (simp del: exec.simps)
qed

text \<open>
  C3. When the priority of \<open>L1\<close> is below that of \<open>L2\<close>, then after
  \<^verbatim>\<open>init({ level: L2 })\<close> (whatever the file, whether or not it could be opened) the
  internal write at \<open>L1\<close> and the operation emitting at \<open>L1\<close> leave the state as it is,
  and no emitting call of level \<open>L1\<close>, with any payload, changes the content of any file.
  When the level passes the filter and a stream is open on \<open>p\<close>, the write appends to
  \<open>p\<close> exactly the text \<^verbatim>\<open>[<timestamp>] [<LEVEL>] <message>\<close> and a newline, the
  timestamp being the reading of the clock and the level in upper case, and changes
  nothing else; the emitting operation does exactly this write.
\<close>

theorem level_filter_and_record_format:
  "(LOG_LEVEL_PRIORITY L1 < LOG_LEVEL_PRIORITY L2 \<longrightarrow>
      (\<exists>s1. init P \<lparr>level = L2, file' = f\<rparr> s = Inr s1 \<and>
            write' L1 m s1 = s1 \<and>
            exec P (emit_at L1 m) s1 = Inr s1 \<and>
            (\<forall>c. emitting c \<and> call_level c = L1 \<longrightarrow>
                 files (landing (exec P c s1) s1) = files s1)))
   \<and> (shouldLog lvl t \<and> stream_open t h p \<longrightarrow>
        write' lvl msg t =
          appended p (''['' @ now t @ ''] ['' @ LEVEL lvl @ ''] '' @ msg @ nl) t \<and>
        exec P (emit_at lvl msg) t = Inr (write' lvl msg t))"
proof (intro conjI impI)
  assume lt: "LOG_LEVEL_PRIORITY L1 < LOG_LEVEL_PRIORITY L2"
  obtain s1 where s1: "init P \<lparr>level = L2, file' = f\<rparr> s = Inr s1"
    using init_returns by blast
  from lt have no: "\<not> shouldLog L1 s1"
    by (simp add: shouldLog_after_init [OF s1])
  have "write' L1 m s1 = s1"
    using no by (rule write_filtered)
  moreover have "exec P (emit_at L1 m) s1 = Inr s1"
    using no by (simp add: exec_emit_at write_filtered)
  moreover have "\<forall>c. emitting c \<and> call_level c = L1 \<longrightarrow>
      files (landing (exec P c s1) s1) = files s1"
    using no by (auto simp: filtered_call_lands)
  ultimately show "\<exists>s1. init P \<lparr>level = L2, file' = f\<rparr> s = Inr s1 \<and>
      write' L1 m s1 = s1 \<and> exec P (emit_at L1 m) s1 = Inr s1 \<and>
      (\<forall>c. emitting c \<and> call_level c = L1 \<longrightarrow> files (landing (exec P c s1) s1) = files s1)"
    using s1 by blast
next
  assume "shouldLog lvl t \<and> stream_open t h p"
  then show "write' lvl msg t =
      appended p (''['' @ now t @ ''] ['' @ LEVEL lvl @ ''] '' @ msg @ nl) t"
    using write_open by blast
next
  show "exec P (emit_at lvl msg) t = Inr (write' lvl msg t)"
    by (rule exec_emit_at)
qed

theorem level_filter_and_record_format_witness:
  "LOG_LEVEL_PRIORITY Debug < LOG_LEVEL_PRIORITY Warn \<and>
   exec posix (emit_at Debug ''quiet'') (started Warn) = Inr (started Warn) \<and>
   shouldLog Error (started Warn) \<and>
   stream_open (started Warn) 0 ''/tmp/ingest-music.log'' \<and>
   files (write' Error ''disk full'' (started Warn)) ''/tmp/ingest-music.log'' =
     Some (nl @ ''[2024-01-01T00:00:00.000Z] New session started'' @ nl
           @ ''[2024-01-01T00:00:00.000Z] [ERROR] disk full'' @ nl)"
proof -
  note T = level_filter_and_record_format
    [of Debug Warn posix None boot "''quiet''" Error "started Warn" 0
        "''/tmp/ingest-music.log''" "''disk full''"]
  have lt: "LOG_LEVEL_PRIORITY Debug < LOG_LEVEL_PRIORITY Warn"
    by simp
  have op: "shouldLog Error (started Warn) \<and> stream_open (started Warn) 0 ''/tmp/ingest-music.log''"
    by (simp add: shouldLog_Error started_fields)
  from T lt obtain s1 where
    "init posix \<lparr>level = Warn, file' = None\<rparr> boot = Inr s1"
    "exec posix (emit_at Debug ''quiet'') s1 = Inr s1"
    by blast
  then have quiet: "exec posix (emit_at Debug ''quiet'') (started Warn) = Inr (started Warn)"
    by (simp add: started_def landing_def)
  from T op have "write' Error ''disk full'' (started Warn) =
      appended ''/tmp/ingest-music.log''
        (''['' @ now (started Warn) @ ''] ['' @ LEVEL Error @ ''] '' @ ''disk full'' @ nl)
        (started Warn)"
    by blast
  then have "files (write' Error ''disk full'' (started Warn)) ''/tmp/ingest-music.log'' =
     Some (nl @ ''[2024-01-01T00:00:00.000Z] New session started'' @ nl
           @ ''[2024-01-01T00:00:00.000Z] [ERROR] disk full'' @ nl)"
    by (simp add: appended_def content_def started_fields)
  with lt op quiet show ?thesis
    by blast
qed

text \<open>
  C4. \<^verbatim>\<open>init\<close> returns in every case and stores the configuration supplied, and a
  directory that cannot be made is reported on the console and leaves the instance
  without a stream. A file that cannot be opened is not reported: \<^verbatim>\<open>init\<close> expects
  \<^verbatim>\<open>fs.createWriteStream\<close> to throw, but it returns a stream and the error comes as an
  event, past the catch block. On the machine that refuses to open any file, \<^verbatim>\<open>init\<close>
  prints nothing, keeps the destroyed stream as its handle, and leaves the error
  uncaught; the log file does not exist.
\<close>

theorem init_open_failure_escapes_catch:
  "init_failure readonly \<lparr>level = Debug, file' = None\<rparr> boot = Some (FsError ''EACCES'') \<and>
   config (landing (init readonly \<lparr>level = Debug, file' = None\<rparr> boot) boot) =
     \<lparr>level = Debug, file' = None\<rparr> \<and>
   console (landing (init readonly \<lparr>level = Debug, file' = None\<rparr> boot) boot) = [] \<and>
   fileStream (landing (init readonly \<lparr>level = Debug, file' = None\<rparr> boot) boot) = Some 0 \<and>
   streams (landing (init readonly \<lparr>level = Debug, file' = None\<rparr> boot) boot) =
     [(''/tmp/ingest-music.log'', True)] \<and>
   uncaught (landing (init readonly \<lparr>level = Debug, file' = None\<rparr> boot) boot) =
     [FsError ''EACCES''] \<and>
   files (landing (init readonly \<lparr>level = Debug, file' = None\<rparr> boot) boot)
     ''/tmp/ingest-music.log'' = None"
proof -
  let ?cfg = "\<lparr>level = Debug, file' = None\<rparr>"
  have fl: "init_failure readonly ?cfg boot = Some (FsError ''EACCES'')"
    by (rule init_failure_readonly)
  have dir: "existsSync (dirname readonly (logFilePath readonly ?cfg)) boot \<or>
      mkdir_error readonly (dirname readonly (logFilePath readonly ?cfg)) = None"
    by (simp add: readonly_def posix_def)
  have op: "open_error readonly (logFilePath readonly ?cfg) = Some (FsError ''EACCES'')"
    by (simp add: readonly_def)
  from init_open_fails [OF dir op] obtain s' where s': "init readonly ?cfg boot = Inr s'"
    "config s' = ?cfg" "fileStream s' = Some (length (streams boot))"
    "streams s' = streams (close_existing boot) @ [(logFilePath readonly ?cfg, True)]"
    "files s' = files boot" "console s' = console boot"
    "uncaught s' = uncaught boot @ [FsError ''EACCES'']"
    by blast
  from s'(1) have l: "landing (init readonly ?cfg boot) boot = s'"
    by (simp add: landing_def)
  from s'(2-7) fl show ?thesis
    unfolding l by (simp add: boot_def close_existing_def logFilePath_posix_default)
qed

text \<open>
  C5. When the configuration names a non-empty path \<open>F\<close> and the platform raises no
  error, then after \<^verbatim>\<open>init\<close> the file at \<open>F\<close> exists, the instance holds a stream open
  on it, and its content is the prior content (empty for a new file) followed by exactly
  the session-start marker: a newline, \<^verbatim>\<open>[<timestamp>] New session started\<close> with the
  reading of the clock, and a newline. No other file changes.
\<close>

theorem init_writes_session_start:
  assumes "file' cfg = Some F" and "F \<noteq> []" and "init_failure P cfg s = None"
  shows "\<exists>s' h. init P cfg s = Inr s' \<and> stream_open s' h F \<and>
           files s' F =
             Some (content s F @ nl @ ''['' @ now s @ ''] New session started'' @ nl) \<and>
           (\<forall>q. q \<noteq> F \<longrightarrow> files s' q = files s q)"
proof -
  from assms(1,2) have p: "logFilePath P cfg = F"
    by (simp add: logFilePath_def)
  from init_success [OF assms(3)] obtain s' where s': "init P cfg s = Inr s'"
    "fileStream s' = Some (length (streams s))"
    "streams s' = streams (close_existing s) @ [(F, False)]"
    "files s' = (files s)(F \<mapsto>
        content s F @ nl @ ''['' @ now s @ ''] New session started'' @ nl)"
    unfolding p by blast
  have "stream_open s' (length (streams s)) F"
    using s'(2,3) by (simp add: stream_open_def close_existing_fields nth_append)
  with s'(1,4) show ?thesis
    by auto
qed

theorem init_writes_session_start_witness:
  "file' \<lparr>level = Info, file' = Some ''/tmp/app.log''\<rparr> = Some ''/tmp/app.log'' \<and>
   ''/tmp/app.log'' \<noteq> [] \<and>
   init_failure posix \<lparr>level = Info, file' = Some ''/tmp/app.log''\<rparr> relaunched = None \<and>
   files (landing (init posix \<lparr>level = Info, file' = Some ''/tmp/app.log''\<rparr> relaunched) relaunched)
     ''/tmp/app.log'' =
     Some (''earlier run'' @ nl @ nl @ ''[2024-01-01T00:00:00.000Z] New session started'' @ nl)"
proof -
  let ?cfg = "\<lparr>level = Info, file' = Some ''/tmp/app.log''\<rparr>"
  have a: "file' ?cfg = Some ''/tmp/app.log''" "''/tmp/app.log'' \<noteq> []"
    "init_failure posix ?cfg relaunched = None"
    by (simp_all add: init_failure_posix)
  from init_writes_session_start [OF a] obtain s' where
    s': "init posix ?cfg relaunched = Inr s'"
    "files s' ''/tmp/app.log'' =
       Some (content relaunched ''/tmp/app.log'' @ nl @ ''['' @ now relaunched
             @ ''] New session started'' @ nl)"
    by blast
  from s'(1) have l: "landing (init posix ?cfg relaunched) relaunched = s'"
    by (simp add: landing_def)
  from s'(2) have "files s' ''/tmp/app.log'' =
     Some (''earlier run'' @ nl @ nl @ ''[2024-01-01T00:00:00.000Z] New session started'' @ nl)"
    by (simp add: content_def relaunched_def boot_def)
  with a show ?thesis
    unfolding l by simp
qed

text \<open>
  C6. With a stream open on \<open>p\<close>, \<^verbatim>\<open>close()\<close> appends the session-end marker with the
  reading of the clock to \<open>p\<close>, ends the stream and clears the handle. With no stream
  open it changes nothing. In every case it returns with the handle cleared, a second
  \<^verbatim>\<open>close()\<close> changes nothing, no stream of an instance that held every open one is
  left open, and after it no sequence of calls other than \<^verbatim>\<open>init\<close> (emitting calls,
  \<^verbatim>\<open>setDebug\<close>, \<^verbatim>\<open>close\<close>, the clock moving) changes the content of any file or
  opens a stream.
\<close>

theorem close_ends_session:
  "(stream_open s h p \<longrightarrow>
      close s = Inr ((appended p (''['' @ now s @ ''] Session ended'' @ nl) s)
                       \<lparr>streams := (streams s)[h := (p, True)], fileStream := None\<rparr>))
   \<and> (fileStream s = None \<longrightarrow> close s = Inr s)
   \<and> (\<exists>s'. close s = Inr s' \<and> fileStream s' = None \<and> close s' = Inr s' \<and>
          (owned s \<longrightarrow> open_handles s' = []) \<and>
          (\<forall>cs. list_all (\<lambda>c. \<not> is_init c) cs \<longrightarrow>
                files (run P cs s') = files s' \<and> fileStream (run P cs s') = None \<and>
                streams (run P cs s') = streams s'))"
proof (intro conjI impI)
  assume "stream_open s h p"
  then show "close s = Inr ((appended p (''['' @ now s @ ''] Session ended'' @ nl) s)
                       \<lparr>streams := (streams s)[h := (p, True)], fileStream := None\<rparr>)"
    by (rule close_open)
next
  assume "fileStream s = None"
  then show "close s = Inr s" by (rule close_no_stream)
next
  obtain s' where s': "close s = Inr s'" "fileStream s' = None"
    using close_returns by blast
  have "close s' = Inr s'"
    using s'(2) by (rule close_no_stream)
  moreover have "owned s \<longrightarrow> open_handles s' = []"
    using s'(1) by (auto dest: close_owned)
  moreover have "\<forall>cs. list_all (\<lambda>c. \<not> is_init c) cs \<longrightarrow>
      files (run P cs s') = files s' \<and> fileStream (run P cs s') = None \<and>
      streams (run P cs s') = streams s'"
    using run_no_stream [OF s'(2)] by blast
  ultimately show "\<exists>s'. close s = Inr s' \<and> fileStream s' = None \<and> close s' = Inr s' \<and>
          (owned s \<longrightarrow> open_handles s' = []) \<and>
          (\<forall>cs. list_all (\<lambda>c. \<not> is_init c) cs \<longrightarrow>
                files (run P cs s') = files s' \<and> fileStream (run P cs s') = None \<and>
                streams (run P cs s') = streams s')"
    using s' by blast
qed

theorem close_ends_session_witness:
  "stream_open (started Info) 0 ''/tmp/ingest-music.log'' \<and>
   fileStream (landing (close (started Info)) (started Info)) = None \<and>
   streams (landing (close (started Info)) (started Info)) = [(''/tmp/ingest-music.log'', True)] \<and>
   files (landing (close (started Info)) (started Info)) ''/tmp/ingest-music.log'' =
     Some (nl @ ''[2024-01-01T00:00:00.000Z] New session started'' @ nl
           @ ''[2024-01-01T00:00:00.000Z] Session ended'' @ nl) \<and>
   owned (started Info) \<and>
   open_handles (landing (close (started Info)) (started Info)) = [] \<and>
   list_all (\<lambda>c. \<not> is_init c) [CInfo ''late'', Tick ''2024-01-01T00:00:09.000Z'', CError ''later'' (Str ''x'')] \<and>
   files (run posix [CInfo ''late'', Tick ''2024-01-01T00:00:09.000Z'', CError ''later'' (Str ''x'')]
            (landing (close (started Info)) (started Info))) ''/tmp/ingest-music.log'' =
     Some (nl @ ''[2024-01-01T00:00:00.000Z] New session started'' @ nl
           @ ''[2024-01-01T00:00:00.000Z] Session ended'' @ nl)"
proof -
  note T = close_ends_session [of "started Info" 0 "''/tmp/ingest-music.log''" posix]
  let ?cs = "[CInfo ''late'', Tick ''2024-01-01T00:00:09.000Z'', CError ''later'' (Str ''x'')]"
  have op: "stream_open (started Info) 0 ''/tmp/ingest-music.log''"
    by (simp add: started_fields)
  have ow: "owned (started Info)"
    by (rule started_owned)
  have cs: "list_all (\<lambda>c. \<not> is_init c) ?cs"
    by simp
  from T op have cl: "close (started Info) =
      Inr ((appended ''/tmp/ingest-music.log''
              (''['' @ now (started Info) @ ''] Session ended'' @ nl) (started Info))
             \<lparr>streams := (streams (started Info))[0 := (''/tmp/ingest-music.log'', True)],
              fileStream := None\<rparr>)"
    by blast
  from T ow cs obtain s' where s': "close (started Info) = Inr s'" "open_handles s' = []"
    "files (run posix ?cs s') = files s'"
    by blast
  from s'(1) have l: "landing (close (started Info)) (started Info) = s'"
    by (simp add: landing_def)
  from cl s'(1) have f: "fileStream s' = None"
    "streams s' = [(''/tmp/ingest-music.log'', True)]"
    "files s' ''/tmp/ingest-music.log'' =
       Some (nl @ ''[2024-01-01T00:00:00.000Z] New session started'' @ nl
             @ ''[2024-01-01T00:00:00.000Z] Session ended'' @ nl)"
    by (auto simp: appended_def content_def started_fields)
  from op ow cs s'(2,3) f show ?thesis
    unfolding l by simp
qed

text \<open>
  C7 as stated fails: the empty string is a body that is given, and a string, yet the
  record has no body segment; it ends after the URL.
\<close>

theorem logCurl_empty_body_counterexample:
  "shouldLog Debug (started Debug) \<and>
   stream_open (started Debug) 0 ''/tmp/ingest-music.log'' \<and>
   content (landing (logCurl ''POST'' ''http://x/y'' None (Str []) (started Debug))
              (started Debug)) ''/tmp/ingest-music.log'' =
     nl @ ''[2024-01-01T00:00:00.000Z] New session started'' @ nl
        @ ''[2024-01-01T00:00:00.000Z] [DEBUG] API Call:'' @ nl
        @ ''curl -X POST '' @ sq @ ''http://x/y'' @ sq @ nl \<and>
   \<not> sublist (''-d '' @ sq @ [] @ sq)
       (content (landing (logCurl ''POST'' ''http://x/y'' None (Str []) (started Debug))
                   (started Debug)) ''/tmp/ingest-music.log'')"
proof -
  have op: "shouldLog Debug (started Debug)"
    "stream_open (started Debug) 0 ''/tmp/ingest-music.log''"
    by (simp_all add: shouldLog_def started_fields)
  have c: "content (landing (logCurl ''POST'' ''http://x/y'' None (Str []) (started Debug))
              (started Debug)) ''/tmp/ingest-music.log'' =
     nl @ ''[2024-01-01T00:00:00.000Z] New session started'' @ nl
        @ ''[2024-01-01T00:00:00.000Z] [DEBUG] API Call:'' @ nl
        @ ''curl -X POST '' @ sq @ ''http://x/y'' @ sq @ nl"
    by (simp add: started_Debug_empty_body landing_def appended_def content_def started_fields)
  have "\<not> sublist (''-d '' @ sq @ [] @ sq)
      (nl @ ''[2024-01-01T00:00:00.000Z] New session started'' @ nl
        @ ''[2024-01-01T00:00:00.000Z] [DEBUG] API Call:'' @ nl
        @ ''curl -X POST '' @ sq @ ''http://x/y'' @ sq @ nl)"
    by code_simp
  with op c show ?thesis
    by simp
qed

text \<open>
  C7, as the code has it. With debug enabled and a stream open on \<open>p\<close>, \<^verbatim>\<open>logCurl\<close>
  appends one debug record to \<open>p\<close>: the label \<^verbatim>\<open>API Call:\<close>, a newline and the curl
  command, which holds \<^verbatim>\<open>curl -X <method> '<url>'\<close>, the segment of every header entry
  and, last, the segment of the body text when there is one. The body text is the body
  itself for a truthy string, the compact serialization for any other truthy value that
  \<^verbatim>\<open>JSON.stringify\<close> accepts, and there is none for a falsy body. When debug is filtered
  out, that is when the configured level is not debug, the call returns the state as it
  is, for every argument.
\<close>

theorem logCurl_record:
  "(shouldLog Debug s \<and> stream_open s h p \<and> body_text body = Inr bt \<longrightarrow>
      logCurl m u hs body s =
        Inr (appended p (''['' @ now s @ ''] [DEBUG] API Call:'' @ nl
                           @ curl_command m u (entries hs) bt @ nl) s) \<and>
      sublist (''curl -X '' @ m @ '' '' @ sq @ u @ sq) (curl_command m u (entries hs) bt) \<and>
      (\<forall>kv \<in> set (entries hs). sublist (header_segment kv) (curl_command m u (entries hs) bt)) \<and>
      (\<forall>b. bt = Some b \<longrightarrow> suffix (body_segment b) (curl_command m u (entries hs) bt))) \<and>
   (truthy (Str b) \<longrightarrow> body_text (Str b) = Inr (Some b)) \<and>
   (truthy body \<and> (\<forall>b. body \<noteq> Str b) \<and> JSON_stringify 0 body = Inr (Some j) \<longrightarrow>
      body_text body = Inr (Some j)) \<and>
   (\<not> truthy body \<longrightarrow> body_text body = Inr None) \<and>
   (level (config s) \<noteq> Debug \<longrightarrow> logCurl m u hs body s = Inr s)"
proof (intro conjI impI ballI allI)
  assume "shouldLog Debug s \<and> stream_open s h p \<and> body_text body = Inr bt"
  then show "logCurl m u hs body s =
        Inr (appended p (''['' @ now s @ ''] [DEBUG] API Call:'' @ nl
                           @ curl_command m u (entries hs) bt @ nl) s)"
    using logCurl_open by blast
next
  show "sublist (''curl -X '' @ m @ '' '' @ sq @ u @ sq) (curl_command m u (entries hs) bt)"
    by (rule sublist_curl_head)
next
  fix kv assume "kv \<in> set (entries hs)"
  then show "sublist (header_segment kv) (curl_command m u (entries hs) bt)"
    by (rule sublist_curl_header)
next
  fix b' assume "bt = Some b'"
  then show "suffix (body_segment b') (curl_command m u (entries hs) bt)"
    by (simp add: suffix_curl_body)
next
  assume "truthy (Str b)"
  then show "body_text (Str b) = Inr (Some b)" by (rule body_text_string)
next
  assume "truthy body \<and> (\<forall>b. body \<noteq> Str b) \<and> JSON_stringify 0 body = Inr (Some j)"
  then show "body_text body = Inr (Some j)"
    using body_text_other by blast
next
  assume "\<not> truthy body"
  then show "body_text body = Inr None" by (rule body_text_falsy)
next
  assume "level (config s) \<noteq> Debug"
  then show "logCurl m u hs body s = Inr s"
    by (simp add: logCurl_eq shouldLog_Debug)
qed

theorem logCurl_record_witness:
  "shouldLog Debug (started Debug) \<and>
   stream_open (started Debug) 0 ''/tmp/ingest-music.log'' \<and>
   truthy (Obj [(''k'', Num 1)]) \<and>
   JSON_stringify 0 (Obj [(''k'', Num 1)]) = Inr (Some (''{'' @ dq @ ''k'' @ dq @ '':1}'')) \<and>
   files (landing (logCurl ''POST'' ''http://x/y'' (Some [(''A'', ''B'')]) (Obj [(''k'', Num 1)])
                     (started Debug)) (started Debug)) ''/tmp/ingest-music.log'' =
     Some (nl @ ''[2024-01-01T00:00:00.000Z] New session started'' @ nl
           @ ''[2024-01-01T00:00:00.000Z] [DEBUG] API Call:'' @ nl
           @ ''curl -X POST '' @ sq @ ''http://x/y'' @ sq
           @ '' '' @ bsl @ nl @ ''  -H '' @ sq @ ''A: B'' @ sq
           @ '' '' @ bsl @ nl @ ''  -d '' @ sq @ ''{'' @ dq @ ''k'' @ dq @ '':1}'' @ sq @ nl) \<and>
   level (config (started Info)) \<noteq> Debug \<and>
   logCurl ''POST'' ''http://x/y'' (Some [(''A'', ''B'')]) (Obj [(''k'', Num 1)]) (started Info) =
     Inr (started Info)"
proof -
  let ?body = "Obj [(''k'', Num 1)]"
  let ?j = "''{'' @ dq @ ''k'' @ dq @ '':1}''"
  let ?hs = "Some [(''A'', ''B'')]"
  note T = logCurl_record [of "started Debug" 0 "''/tmp/ingest-music.log''" ?body "Some ?j"
      "''POST''" "''http://x/y''" ?hs "[]" ?j]
  note U = logCurl_record [of "started Info" 0 "''/tmp/ingest-music.log''" ?body "Some ?j"
      "''POST''" "''http://x/y''" ?hs "[]" ?j]
  have op: "shouldLog Debug (started Debug)"
    "stream_open (started Debug) 0 ''/tmp/ingest-music.log''"
    by (simp_all add: shouldLog_def started_fields)
  have v: "truthy ?body \<and> (\<forall>b. ?body \<noteq> Str b) \<and> JSON_stringify 0 ?body = Inr (Some ?j)"
    using stringify_k_1 by simp
  with T have bt: "body_text ?body = Inr (Some ?j)"
    by blast
  with T op have "logCurl ''POST'' ''http://x/y'' ?hs ?body (started Debug) =
      Inr (appended ''/tmp/ingest-music.log''
            (''['' @ now (started Debug) @ ''] [DEBUG] API Call:'' @ nl
               @ curl_command ''POST'' ''http://x/y'' (entries ?hs) (Some ?j) @ nl)
            (started Debug))"
    by blast
  then have a: "files (landing (logCurl ''POST'' ''http://x/y'' ?hs ?body (started Debug))
        (started Debug)) ''/tmp/ingest-music.log'' =
     Some (nl @ ''[2024-01-01T00:00:00.000Z] New session started'' @ nl
           @ ''[2024-01-01T00:00:00.000Z] [DEBUG] API Call:'' @ nl
           @ ''curl -X POST '' @ sq @ ''http://x/y'' @ sq
           @ '' '' @ bsl @ nl @ ''  -H '' @ sq @ ''A: B'' @ sq
           @ '' '' @ bsl @ nl @ ''  -d '' @ sq @ ''{'' @ dq @ ''k'' @ dq @ '':1}'' @ sq @ nl)"
    by (simp add: landing_def appended_def content_def started_fields entries_def
          curl_command_def header_segment_def body_segment_def)
  have i: "level (config (started Info)) \<noteq> Debug"
    by (simp add: started_fields)
  with U have "logCurl ''POST'' ''http://x/y'' ?hs ?body (started Info) = Inr (started Info)"
    by blast
  with op v a i show ?thesis
    by simp
qed

text \<open>
  C8 as stated fails on a defined value that is no \<^verbatim>\<open>Error\<close> and that
  \<^verbatim>\<open>JSON.stringify\<close> refuses: with a stream open, \<^verbatim>\<open>error("boom", 1n)\<close> raises and
  no record is appended.
\<close>

theorem error_rejected_value_counterexample:
  "stream_open (started Warn) 0 ''/tmp/ingest-music.log'' \<and>
   shouldLog Error (started Warn) \<and>
   BigInt 1 \<noteq> Undefined \<and>
   error ''boom'' (BigInt 1) (started Warn) =
     Inl (TypeError ''Do not know how to serialize a BigInt'') \<and>
   files (landing (error ''boom'' (BigInt 1) (started Warn)) (started Warn))
     ''/tmp/ingest-music.log'' =
     Some (nl @ ''[2024-01-01T00:00:00.000Z] New session started'' @ nl)"
  by (simp add: started_fields shouldLog_Error error_def JSON_stringify_def landing_def)

text \<open>
  C8, as the code has it. The error level passes every threshold. With a stream open on
  \<open>p\<close>, \<^verbatim>\<open>error(message, err)\<close> appends one record to \<open>p\<close>, whose first line is the
  timestamp, the tag \<^verbatim>\<open>[ERROR]\<close> and the message: alone when \<open>err\<close> is undefined;
  followed, on the next lines of the same record, by the description and the stack
  (nothing for a missing stack) when \<open>err\<close> is an \<^verbatim>\<open>Error\<close>; followed by the
  serialization with two spaces of indentation when \<open>err\<close> is any other defined value
  that \<^verbatim>\<open>JSON.stringify\<close> serializes to \<open>j\<close>. On any other defined value that
  \<^verbatim>\<open>JSON.stringify\<close> refuses with \<open>e\<close>, the call raises \<open>e\<close> and nothing is appended.
\<close>

theorem error_record:
  "shouldLog Error s \<and>
   (stream_open s h p \<longrightarrow>
      error m Undefined s =
        Inr (appended p (''['' @ now s @ ''] [ERROR] '' @ m @ nl) s) \<and>
      error m (ErrorObj d st) s =
        Inr (appended p (''['' @ now s @ ''] [ERROR] '' @ m @ nl @ d @ nl
                           @ (case st of None \<Rightarrow> [] | Some t \<Rightarrow> t) @ nl) s) \<and>
      (v \<noteq> Undefined \<and> (\<forall>d st. v \<noteq> ErrorObj d st) \<and> JSON_stringify 2 v = Inr (Some j) \<longrightarrow>
         error m v s =
           Inr (appended p (''['' @ now s @ ''] [ERROR] '' @ m @ nl @ j @ nl) s))) \<and>
   (v \<noteq> Undefined \<and> (\<forall>d st. v \<noteq> ErrorObj d st) \<and> JSON_stringify 2 v = Inl e \<longrightarrow>
      error m v s = Inl e)"
proof (intro conjI impI)
  show "shouldLog Error s" by (rule shouldLog_Error)
next
  assume op: "stream_open s h p"
  show "error m Undefined s = Inr (appended p (''['' @ now s @ ''] [ERROR] '' @ m @ nl) s)"
    using write_open [OF shouldLog_Error op] by (simp add: error_plain)
next
  assume op: "stream_open s h p"
  show "error m (ErrorObj d st) s =
        Inr (appended p (''['' @ now s @ ''] [ERROR] '' @ m @ nl @ d @ nl
                           @ (case st of None \<Rightarrow> [] | Some t \<Rightarrow> t) @ nl) s)"
    using write_open [OF shouldLog_Error op] by (simp add: error_Error)
next
  assume op: "stream_open s h p"
    and v: "v \<noteq> Undefined \<and> (\<forall>d st. v \<noteq> ErrorObj d st) \<and> JSON_stringify 2 v = Inr (Some j)"
  then have "error m v s = Inr (write' Error (m @ nl @ template (Some j)) s)"
    using error_value by blast
  then show "error m v s =
      Inr (appended p (''['' @ now s @ ''] [ERROR] '' @ m @ nl @ j @ nl) s)"
    using write_open [OF shouldLog_Error op] by simp
next
  assume "v \<noteq> Undefined \<and> (\<forall>d st. v \<noteq> ErrorObj d st) \<and> JSON_stringify 2 v = Inl e"
  then show "error m v s = Inl e"
    using error_rejected by blast
qed

theorem error_record_witness:
  "stream_open (started Warn) 0 ''/tmp/ingest-music.log'' \<and>
   files (landing (error ''boom'' (ErrorObj ''oops'' (Some ''Error: oops at main'')) (started Warn))
            (started Warn)) ''/tmp/ingest-music.log'' =
     Some (nl @ ''[2024-01-01T00:00:00.000Z] New session started'' @ nl
           @ ''[2024-01-01T00:00:00.000Z] [ERROR] boom'' @ nl
           @ ''oops'' @ nl
           @ ''Error: oops at main'' @ nl) \<and>
   Obj [(''code'', Num 7)] \<noteq> Undefined \<and>
   JSON_stringify 2 (Obj [(''code'', Num 7)]) =
     Inr (Some (''{'' @ nl @ ''  '' @ dq @ ''code'' @ dq @ '': 7'' @ nl @ ''}'')) \<and>
   files (landing (error ''boom'' (Obj [(''code'', Num 7)]) (started Warn)) (started Warn))
     ''/tmp/ingest-music.log'' =
     Some (nl @ ''[2024-01-01T00:00:00.000Z] New session started'' @ nl
           @ ''[2024-01-01T00:00:00.000Z] [ERROR] boom'' @ nl
           @ ''{'' @ nl @ ''  '' @ dq @ ''code'' @ dq @ '': 7'' @ nl @ ''}'' @ nl)"
proof -
  let ?j = "''{'' @ nl @ ''  '' @ dq @ ''code'' @ dq @ '': 7'' @ nl @ ''}''"
  note T = error_record [of "started Warn" 0 "''/tmp/ingest-music.log''" "''boom''"
      "''oops''" "Some ''Error: oops at main''" "Obj [(''code'', Num 7)]" ?j]
  have op: "stream_open (started Warn) 0 ''/tmp/ingest-music.log''"
    by (simp add: started_fields)
  have v: "Obj [(''code'', Num 7)] \<noteq> Undefined \<and>
      (\<forall>d st. Obj [(''code'', Num 7)] \<noteq> ErrorObj d st) \<and>
      JSON_stringify 2 (Obj [(''code'', Num 7)]) = Inr (Some ?j)"
    using stringify_code_7 by simp
  from T op have "error ''boom'' (ErrorObj ''oops'' (Some ''Error: oops at main'')) (started Warn) =
      Inr (appended ''/tmp/ingest-music.log''
             (''['' @ now (started Warn) @ ''] [ERROR] '' @ ''boom'' @ nl @ ''oops'' @ nl
               @ (case Some ''Error: oops at main'' of None \<Rightarrow> [] | Some t \<Rightarrow> t) @ nl)
             (started Warn))"
    by blast
  then have a: "files (landing (error ''boom'' (ErrorObj ''oops'' (Some ''Error: oops at main''))
         (started Warn)) (started Warn)) ''/tmp/ingest-music.log'' =
     Some (nl @ ''[2024-01-01T00:00:00.000Z] New session started'' @ nl
           @ ''[2024-01-01T00:00:00.000Z] [ERROR] boom'' @ nl
           @ ''oops'' @ nl
           @ ''Error: oops at main'' @ nl)"
    by (simp add: landing_def appended_def content_def started_fields)
  from T op v have "error ''boom'' (Obj [(''code'', Num 7)]) (started Warn) =
      Inr (appended ''/tmp/ingest-music.log''
             (''['' @ now (started Warn) @ ''] [ERROR] '' @ ''boom'' @ nl @ ?j @ nl)
             (started Warn))"
    by blast
  then have b: "files (landing (error ''boom'' (Obj [(''code'', Num 7)]) (started Warn))
        (started Warn)) ''/tmp/ingest-music.log'' =
     Some (nl @ ''[2024-01-01T00:00:00.000Z] New session started'' @ nl
           @ ''[2024-01-01T00:00:00.000Z] [ERROR] boom'' @ nl @ ?j @ nl)"
    by (simp add: landing_def appended_def content_def started_fields)
  from op a b v show ?thesis
    by simp
qed

text \<open>
  C9. From every state, \<^verbatim>\<open>setDebug(true)\<close> makes \<^verbatim>\<open>isDebugEnabled()\<close> true and
  \<^verbatim>\<open>setDebug(false)\<close> makes it false, and the level \<^verbatim>\<open>setDebug\<close> stores is debug or
  info, never warn or error.
\<close>

theorem setDebug_toggle:
  "isDebugEnabled (setDebug True s) \<and> \<not> isDebugEnabled (setDebug False s) \<and>
   (level (config (setDebug b s)) = Debug \<or> level (config (setDebug b s)) = Info)"
  by (simp add: isDebugEnabled_def setDebug_def)

text \<open>
  C10. \<^verbatim>\<open>logCurl\<close> tests the body for truthiness: with a falsy body (the empty string,
  0, false and null are falsy) the call does what it does with no body at all, so with
  debug enabled and a stream open the record holds the method, the URL and the header
  segments and no body segment. \<^verbatim>\<open>init\<close> takes an empty file path for a missing one:
  the path resolved is the default under the temporary directory, and the two calls end
  in the same state but for the configuration stored.
\<close>

theorem falsy_body_and_empty_path:
  "(\<not> truthy body \<longrightarrow> logCurl m u hs body s = logCurl m u hs Undefined s) \<and>
   \<not> truthy (Str []) \<and> \<not> truthy (Num 0) \<and> \<not> truthy (Bool False) \<and> \<not> truthy Null \<and>
   (\<not> truthy body \<and> shouldLog Debug s \<and> stream_open s h p \<longrightarrow>
      logCurl m u hs body s =
        Inr (appended p (''['' @ now s @ ''] [DEBUG] API Call:'' @ nl
                           @ ''curl -X '' @ m @ '' '' @ sq @ u @ sq
                           @ concat (map header_segment (entries hs)) @ nl) s)) \<and>
   logFilePath P \<lparr>level = L, file' = Some []\<rparr> = join P (tmpdir P) ''ingest-music.log'' \<and>
   logFilePath P \<lparr>level = L, file' = None\<rparr> = join P (tmpdir P) ''ingest-music.log'' \<and>
   (\<exists>t'. init P \<lparr>level = L, file' = None\<rparr> t = Inr t' \<and>
         init P \<lparr>level = L, file' = Some []\<rparr> t =
           Inr (t'\<lparr>config := \<lparr>level = L, file' = Some []\<rparr>\<rparr>))"
proof (intro conjI impI)
  assume "\<not> truthy body"
  then show "logCurl m u hs body s = logCurl m u hs Undefined s"
    by (simp add: logCurl_eq body_text_falsy)
next
  assume a: "\<not> truthy body \<and> shouldLog Debug s \<and> stream_open s h p"
  then have "body_text body = Inr None"
    by (simp add: body_text_falsy)
  with a have "logCurl m u hs body s =
     Inr (appended p (''['' @ now s @ ''] [DEBUG] API Call:'' @ nl
                        @ curl_command m u (entries hs) None @ nl) s)"
    using logCurl_open by blast
  then show "logCurl m u hs body s =
        Inr (appended p (''['' @ now s @ ''] [DEBUG] API Call:'' @ nl
                           @ ''curl -X '' @ m @ '' '' @ sq @ u @ sq
                           @ concat (map header_segment (entries hs)) @ nl) s)"
    by (simp add: curl_command_def)
next
  obtain t' where t': "init P \<lparr>level = L, file' = None\<rparr> t = Inr t'"
    using init_returns by blast
  have "logFilePath P \<lparr>level = L, file' = Some []\<rparr> = logFilePath P \<lparr>level = L, file' = None\<rparr>"
    by (simp add: logFilePath_def)
  from init_same_path [OF this t'] t'
  show "\<exists>t'. init P \<lparr>level = L, file' = None\<rparr> t = Inr t' \<and>
         init P \<lparr>level = L, file' = Some []\<rparr> t =
           Inr (t'\<lparr>config := \<lparr>level = L, file' = Some []\<rparr>\<rparr>)"
    by blast
qed (simp_all add: logFilePath_def)

theorem falsy_body_and_empty_path_witness:
  "\<not> truthy (Num 0) \<and> shouldLog Debug (started Debug) \<and>
   stream_open (started Debug) 0 ''/tmp/ingest-music.log'' \<and>
   files (landing (logCurl ''GET'' ''http://x/y'' (Some [(''A'', ''B'')]) (Num 0) (started Debug))
            (started Debug)) ''/tmp/ingest-music.log'' =
     Some (nl @ ''[2024-01-01T00:00:00.000Z] New session started'' @ nl
           @ ''[2024-01-01T00:00:00.000Z] [DEBUG] API Call:'' @ nl
           @ ''curl -X GET '' @ sq @ ''http://x/y'' @ sq
           @ '' '' @ bsl @ nl @ ''  -H '' @ sq @ ''A: B'' @ sq @ nl)"
proof -
  note T = falsy_body_and_empty_path [of "Num 0" "''GET''" "''http://x/y''"
      "Some [(''A'', ''B'')]" "started Debug" 0 "''/tmp/ingest-music.log''"]
  have a: "\<not> truthy (Num 0) \<and> shouldLog Debug (started Debug) \<and>
      stream_open (started Debug) 0 ''/tmp/ingest-music.log''"
    by (simp add: shouldLog_def started_fields)
  with T have "logCurl ''GET'' ''http://x/y'' (Some [(''A'', ''B'')]) (Num 0) (started Debug) =
      Inr (appended ''/tmp/ingest-music.log''
            (''['' @ now (started Debug) @ ''] [DEBUG] API Call:'' @ nl
              @ ''curl -X '' @ ''GET'' @ '' '' @ sq @ ''http://x/y'' @ sq
              @ concat (map header_segment (entries (Some [(''A'', ''B'')]))) @ nl)
            (started Debug))"
    by blast
  then have "files (landing (logCurl ''GET'' ''http://x/y'' (Some [(''A'', ''B'')]) (Num 0)
        (started Debug)) (started Debug)) ''/tmp/ingest-music.log'' =
     Some (nl @ ''[2024-01-01T00:00:00.000Z] New session started'' @ nl
           @ ''[2024-01-01T00:00:00.000Z] [DEBUG] API Call:'' @ nl
           @ ''curl -X GET '' @ sq @ ''http://x/y'' @ sq
           @ '' '' @ bsl @ nl @ ''  -H '' @ sq @ ''A: B'' @ sq @ nl)"
    by (simp add: landing_def appended_def content_def started_fields entries_def
          header_segment_def)
  with a show ?thesis
    by simp
qed

end
